theory Spec2Isabelle
  imports
    Main
    "HOL-Library.AList"
    "HOL-Library.Char_ord"
    "HOL-Library.List_Lexorder"
    "HOL-Library.Multiset"
    "HOL-Library.Sublist"
begin


section \<open>Values shared by the server's functions (server/yt.js)\<close>

text \<open>
  A JavaScript exception is a value here. \<open>Error\<close> carries the message of
  \<^verbatim>\<open>new Error(msg)\<close> (also the rejection of an upstream call), \<open>RangeError\<close> is what
  \<^verbatim>\<open>new Date(s).toISOString()\<close> throws on an invalid date and \<open>TypeError\<close> is a
  property read on \<^verbatim>\<open>undefined\<close>.
\<close>

datatype error = Error string | RangeError string | TypeError string

text \<open>
  A string that may be \<^verbatim>\<open>undefined\<close>/\<^verbatim>\<open>null\<close> is a \<open>string option\<close>. JavaScript's
  truthiness test on it (\<^verbatim>\<open>if (x)\<close>, \<^verbatim>\<open>x || y\<close>, \<^verbatim>\<open>!x\<close>) holds for a non-empty string only.
\<close>

definition truthy :: "string option \<Rightarrow> bool" where
  "truthy s = (case s of None \<Rightarrow> False | Some t \<Rightarrow> t \<noteq> [])"

text \<open>\<^verbatim>\<open>a || b\<close> on two such values.\<close>

definition or_else :: "string option \<Rightarrow> string option \<Rightarrow> string option" where
  "or_else a b = (if truthy a then a else b)"

text \<open>
  \<^verbatim>\<open>pub < cutoff\<close> on two strings compares code units lexicographically, which is the
  order of \<open>char list\<close> here.
\<close>

definition str_lt :: "string \<Rightarrow> string \<Rightarrow> bool" where
  "str_lt a b = (a < b)"

section \<open>Configuration (lines 40-51)\<close>

text \<open>
  \<open>RAW_FETCH_MAX\<close> and \<open>RAW_BATCH\<close> are \<^verbatim>\<open>Number(process.env.X || default)\<close>; the
  environment variable is taken to hold an integer literal (or to be unset, which gives
  the default). \<^verbatim>\<open>Math.max\<close>/\<^verbatim>\<open>Math.min\<close> are \<open>max\<close>/\<open>min\<close> on \<open>int\<close>.
\<close>

definition YT_FETCH_MAX_NEW :: "int \<Rightarrow> int" where
  "YT_FETCH_MAX_NEW RAW_FETCH_MAX = max 1 RAW_FETCH_MAX"

definition YT_VIDEOS_BATCH :: "int \<Rightarrow> int" where
  "YT_VIDEOS_BATCH RAW_BATCH = max 1 (min 50 RAW_BATCH)"

section \<open>The upload feed walker: listNewVideoIds (lines 168-216)\<close>

text \<open>
  One entry of \<^verbatim>\<open>playlistItems.list\<close>: \<^verbatim>\<open>it?.contentDetails?.videoId\<close> and
  \<^verbatim>\<open>it?.contentDetails?.videoPublishedAt\<close>, either of which may be missing.
\<close>

record pl_item =
  videoId :: "string option"
  videoPublishedAt :: "string option"

text \<open>One page: \<^verbatim>\<open>r.data?.items || []\<close> and \<^verbatim>\<open>r.data?.nextPageToken\<close>.\<close>

record pl_response =
  pl_items :: "pl_item list"
  nextPageToken :: "string option"

text \<open>An element \<^verbatim>\<open>{ id, publishedAt }\<close> of the walker's result.\<close>

record new_video =
  nv_id :: string
  nv_publishedAt :: "string option"

text \<open>
  The body of \<^verbatim>\<open>for (const it of items)\<close>. The result is the buffer \<open>out\<close> (in push
  order) and the flag \<open>stop\<close>. An item without id is skipped; the cursor test comes
  first and only when \<open>backfill\<close> is false; then the date cut
  \<^verbatim>\<open>cutoff && pub && pub < cutoff\<close>; then the push and the cap.
\<close>

definition before_cutoff :: "string option \<Rightarrow> string option \<Rightarrow> bool" where
  "before_cutoff cutoff pub =
     (case (cutoff, pub) of
        (Some c, Some p) \<Rightarrow> c \<noteq> [] \<and> p \<noteq> [] \<and> str_lt p c
      | _ \<Rightarrow> False)"

fun scan_items ::
  "int \<Rightarrow> string option \<Rightarrow> string option \<Rightarrow> bool \<Rightarrow> pl_item list \<Rightarrow> new_video list
    \<Rightarrow> new_video list \<times> bool" where
  "scan_items cap cutoff lastSeenVideoId backfill [] out = (out, False)"
| "scan_items cap cutoff lastSeenVideoId backfill (it # rest) out =
     (case videoId it of
        None \<Rightarrow> scan_items cap cutoff lastSeenVideoId backfill rest out
      | Some i \<Rightarrow>
          if i = [] then scan_items cap cutoff lastSeenVideoId backfill rest out
          else if \<not> backfill \<and> truthy lastSeenVideoId \<and> Some i = lastSeenVideoId
            then (out, True)
          else if before_cutoff cutoff (videoPublishedAt it) then (out, True)
          else
            (let out' = out @ [\<lparr>nv_id = i, nv_publishedAt = videoPublishedAt it\<rparr>]
             in if int (length out') \<ge> cap then (out', True)
                else scan_items cap cutoff lastSeenVideoId backfill rest out'))"

text \<open>\<^verbatim>\<open>pageToken = r.data?.nextPageToken || null\<close>: an empty token counts as none.\<close>

definition next_token :: "pl_response \<Rightarrow> string option" where
  "next_token r = (if truthy (nextPageToken r) then nextPageToken r else None)"

text \<open>
  The \<^verbatim>\<open>do { ... } while (pageToken)\<close> loop. \<open>list\<close> is
  \<^verbatim>\<open>youtube.playlistItems.list\<close> for the playlist, as a function of the page token; a
  rejected call is \<open>Inl\<close>. An upstream that never stops handing out tokens (with pages
  that add nothing) keeps the loop running: that is the value \<open>None\<close>.
\<close>

partial_function (option) walk_pages ::
  "(string option \<Rightarrow> error + pl_response) \<Rightarrow> int \<Rightarrow> string option \<Rightarrow> string option \<Rightarrow> bool
    \<Rightarrow> string option \<Rightarrow> new_video list \<Rightarrow> (error + new_video list) option" where
  "walk_pages list cap cutoff lastSeenVideoId backfill pageToken out =
     (case list pageToken of
        Inl e \<Rightarrow> Some (Inl e)
      | Inr r \<Rightarrow>
          (case scan_items cap cutoff lastSeenVideoId backfill (pl_items r) out of
             (out', stop) \<Rightarrow>
               if stop then Some (Inr (rev out'))
               else (case next_token r of
                       None \<Rightarrow> Some (Inr (rev out'))
                     | Some t \<Rightarrow>
                         walk_pages list cap cutoff lastSeenVideoId backfill (Some t) out')))"

declare walk_pages.simps [code]

text \<open>
  \<^verbatim>\<open>const cutoff = sinceISO ? new Date(sinceISO).toISOString() : null\<close>. The date
  library is a parameter: \<open>toISOString s\<close> is the normalised timestamp, or \<open>None\<close> when
  the date is invalid and \<^verbatim>\<open>toISOString\<close> throws.
\<close>

definition cutoff_of :: "(string \<Rightarrow> string option) \<Rightarrow> string option \<Rightarrow> error + string option" where
  "cutoff_of toISOString sinceISO =
     (case sinceISO of
        None \<Rightarrow> Inr None
      | Some s \<Rightarrow>
          if s = [] then Inr None
          else (case toISOString s of
                  None \<Rightarrow> Inl (RangeError ''Invalid time value'')
                | Some c \<Rightarrow> Inr (Some c)))"

definition listNewVideoIds ::
  "(string \<Rightarrow> string option) \<Rightarrow> (string \<Rightarrow> string option \<Rightarrow> error + pl_response) \<Rightarrow> int
    \<Rightarrow> string \<Rightarrow> string option \<Rightarrow> string option \<Rightarrow> bool \<Rightarrow> (error + new_video list) option" where
  "listNewVideoIds toISOString playlistItems_list RAW_FETCH_MAX uploadsId sinceISO
       lastSeenVideoId backfill =
     (case cutoff_of toISOString sinceISO of
        Inl e \<Rightarrow> Some (Inl e)
      | Inr cutoff \<Rightarrow>
          walk_pages (playlistItems_list uploadsId) (YT_FETCH_MAX_NEW RAW_FETCH_MAX) cutoff
            lastSeenVideoId backfill None [])"

subsection \<open>A finite feed served page by page\<close>

text \<open>
  The upstream double used to state the walker's properties: a feed is a list of pages;
  page \<open>i\<close> is fetched with the token made of \<open>i\<close> letters \<open>p\<close> (no token for the
  first page), and a page hands out the next token as long as a page follows.
\<close>

definition page_token :: "nat \<Rightarrow> string" where
  "page_token i = replicate i (CHR ''p'')"

definition serve :: "pl_item list list \<Rightarrow> string \<Rightarrow> string option \<Rightarrow> error + pl_response" where
  "serve pages uploadsId pageToken =
     (let i = (case pageToken of None \<Rightarrow> 0 | Some t \<Rightarrow> length t)
      in Inr \<lparr>pl_items = (if i < length pages then pages ! i else []),
              nextPageToken = (if Suc i < length pages then Some (page_token (Suc i)) else None)\<rparr>)"

text \<open>
  The element the walker pushes for a feed item: \<^verbatim>\<open>{ id, publishedAt: pub }\<close>.
\<close>

definition to_new_video :: "pl_item \<Rightarrow> new_video" where
  "to_new_video it =
     \<lparr>nv_id = (case videoId it of None \<Rightarrow> [] | Some i \<Rightarrow> i),
      nv_publishedAt = videoPublishedAt it\<rparr>"

text \<open>The \<open>n\<close>-th element (from 0) of a walk that returned a list.\<close>

definition nth_result :: "(error + new_video list) option \<Rightarrow> nat \<Rightarrow> new_video option" where
  "nth_result r n =
     (case r of
        Some (Inr res) \<Rightarrow> (if n < length res then Some (res ! n) else None)
      | _ \<Rightarrow> None)"

text \<open>
  A synthetic feed of 120 items in three pages of 50, 50 and 20; item \<open>n\<close> (from 0, the
  newest) has the id made of \<open>n + 1\<close> letters \<open>v\<close>.
\<close>

definition feed_item :: "nat \<Rightarrow> pl_item" where
  "feed_item n = \<lparr>videoId = Some (replicate (Suc n) (CHR ''v'')), videoPublishedAt = None\<rparr>"

definition feed120 :: "pl_item list list" where
  "feed120 = [map feed_item [0..<50], map feed_item [50..<100], map feed_item [100..<120]]"

text \<open>The token with which page \<open>i\<close> of a served feed is requested.\<close>

definition token_of :: "nat \<Rightarrow> string option" where
  "token_of i = (if i = 0 then None else Some (page_token i))"

text \<open>
  A feed item that none of the walker's tests stops or skips: it has an id, it is not
  the cursor of an incremental walk, and it is not older than the cutoff.
\<close>

definition passes :: "string option \<Rightarrow> string option \<Rightarrow> bool \<Rightarrow> pl_item \<Rightarrow> bool" where
  "passes cutoff lastSeenVideoId backfill it =
     (truthy (videoId it)
      \<and> \<not> (\<not> backfill \<and> truthy lastSeenVideoId \<and> videoId it = lastSeenVideoId)
      \<and> \<not> before_cutoff cutoff (videoPublishedAt it))"

text \<open>The number of elements of a walk that returned a list.\<close>

definition result_length :: "(error + new_video list) option \<Rightarrow> nat option" where
  "result_length r = (case r of Some (Inr res) \<Rightarrow> Some (length res) | _ \<Rightarrow> None)"

text \<open>Four feed items, newest first, for the concrete runs of the walker below.\<close>

definition ex_a :: pl_item where
  "ex_a = \<lparr>videoId = Some ''a'', videoPublishedAt = Some ''2024-03-01T00:00:00Z''\<rparr>"

definition ex_b :: pl_item where
  "ex_b = \<lparr>videoId = Some ''b'', videoPublishedAt = Some ''2024-01-01T00:00:00Z''\<rparr>"

definition ex_x :: pl_item where
  "ex_x = \<lparr>videoId = Some ''x'', videoPublishedAt = Some ''2023-12-01T00:00:00Z''\<rparr>"

definition ex_d :: pl_item where
  "ex_d = \<lparr>videoId = Some ''d'', videoPublishedAt = Some ''2023-11-01T00:00:00Z''\<rparr>"

section \<open>The detail fetcher: fetchVideoDetails (lines 218-242)\<close>

text \<open>
  One entry of \<^verbatim>\<open>videos.list\<close>: \<^verbatim>\<open>v.id\<close>, the fields read through
  \<^verbatim>\<open>v.snippet?.\<close> and \<^verbatim>\<open>v.contentDetails?.\<close>, and the three counters of
  \<^verbatim>\<open>v.statistics?.\<close> (numeric strings upstream, integers here).
\<close>

record yt_video =
  v_id :: string
  v_title :: "string option"
  v_description :: "string option"
  v_publishedAt :: "string option"
  v_channelId :: "string option"
  v_channelTitle :: "string option"
  v_duration :: "string option"
  v_viewCount :: "int option"
  v_likeCount :: "int option"
  v_commentCount :: "int option"

text \<open>The stored record of a video (the object pushed onto \<^verbatim>\<open>rows\<close>).\<close>

record video_row =
  r_videoId :: string
  r_title :: string
  r_description :: string
  r_publishedAt :: "string option"
  r_channelId :: "string option"
  r_channelTitle :: "string option"
  r_duration :: "string option"
  r_views :: int
  r_likes :: int
  r_comments :: int

text \<open>\<^verbatim>\<open>x || ''\<close> and \<^verbatim>\<open>Number(x || 0)\<close>.\<close>

definition or_empty :: "string option \<Rightarrow> string" where
  "or_empty s = (case s of None \<Rightarrow> [] | Some t \<Rightarrow> t)"

definition or_zero :: "int option \<Rightarrow> int" where
  "or_zero n = (case n of None \<Rightarrow> 0 | Some k \<Rightarrow> k)"

definition to_row :: "yt_video \<Rightarrow> video_row" where
  "to_row v =
     \<lparr>r_videoId = v_id v,
      r_title = or_empty (v_title v),
      r_description = or_empty (v_description v),
      r_publishedAt = v_publishedAt v,
      r_channelId = v_channelId v,
      r_channelTitle = v_channelTitle v,
      r_duration = v_duration v,
      r_views = or_zero (v_viewCount v),
      r_likes = or_zero (v_likeCount v),
      r_comments = or_zero (v_commentCount v)\<rparr>"

text \<open>
  The rows one answer of \<^verbatim>\<open>videos.list\<close> contributes: one per item
  (\<^verbatim>\<open>r.data?.items || []\<close>), none when the call was rejected.
\<close>

definition rows_of_answer :: "error + yt_video list \<Rightarrow> video_row list" where
  "rows_of_answer a = (case a of Inl e \<Rightarrow> [] | Inr items \<Rightarrow> map to_row items)"

text \<open>\<^verbatim>\<open>xs.slice(a, b)\<close> for \<open>0 \<le> a \<le> b\<close>.\<close>

definition slice :: "'a list \<Rightarrow> nat \<Rightarrow> nat \<Rightarrow> 'a list" where
  "slice xs a b = take (b - a) (drop a xs)"

text \<open>
  The loop \<^verbatim>\<open>for (let i = 0; i < ids.length; i += YT_VIDEOS_BATCH)\<close>. \<open>videos_list\<close>
  is \<^verbatim>\<open>youtube.videos.list\<close> as a function of the batch (which the code joins with
  commas into the \<^verbatim>\<open>id\<close> parameter). Besides the rows, the model returns \<open>calls\<close>, the
  batches handed to the upstream in order; a rejected call ends the function with its
  error.
\<close>

function fetch_loop ::
  "(string list \<Rightarrow> error + yt_video list) \<Rightarrow> int \<Rightarrow> string list \<Rightarrow> nat \<Rightarrow> string list list
    \<Rightarrow> video_row list \<Rightarrow> string list list \<times> (error + video_row list)" where
  "fetch_loop videos_list RAW_BATCH ids i calls rows =
     (if i < length ids
      then (let batch = slice ids i (i + nat (YT_VIDEOS_BATCH RAW_BATCH))
            in case videos_list batch of
                 Inl e \<Rightarrow> (calls @ [batch], Inl e)
               | Inr items \<Rightarrow>
                   fetch_loop videos_list RAW_BATCH ids (i + nat (YT_VIDEOS_BATCH RAW_BATCH))
                     (calls @ [batch]) (rows @ map to_row items))
      else (calls, Inr rows))"
  by pat_completeness auto
termination
  by (relation "measure (\<lambda>(videos_list, RAW_BATCH, ids, i, calls, rows). length ids - i)")
     (auto simp: YT_VIDEOS_BATCH_def)

definition fetchVideoDetails ::
  "(string list \<Rightarrow> error + yt_video list) \<Rightarrow> int \<Rightarrow> string list
    \<Rightarrow> string list list \<times> (error + video_row list)" where
  "fetchVideoDetails videos_list RAW_BATCH ids = fetch_loop videos_list RAW_BATCH ids 0 [] []"

text \<open>
  An upstream double for \<^verbatim>\<open>videos.list\<close>: every requested id exists and comes back
  with a title and nothing else.
\<close>

definition plain_video :: "string \<Rightarrow> yt_video" where
  "plain_video i =
     \<lparr>v_id = i, v_title = Some ''t'', v_description = None, v_publishedAt = None,
      v_channelId = None, v_channelTitle = None, v_duration = None,
      v_viewCount = None, v_likeCount = None, v_commentCount = None\<rparr>"

definition all_found :: "string list \<Rightarrow> error + yt_video list" where
  "all_found batch = Inr (map plain_video batch)"

text \<open>120 distinct ids.\<close>

definition ids120 :: "string list" where
  "ids120 = map (\<lambda>n. replicate (Suc n) (CHR ''v'')) [0..<120]"

section \<open>The channel resolver: resolveToChannelId (lines 110-125)\<close>

text \<open>
  The test \<^verbatim>\<open>/^UC[0-9A-Za-z_-]{22}$/\<close>: the letters \<open>UC\<close> followed by exactly 22
  characters of the alphabet, and nothing else.
\<close>

definition is_id_char :: "char \<Rightarrow> bool" where
  "is_id_char c =
     (c \<in> set ''0123456789ABCDEFGHIJKLMNOPQRSTUVWXYZabcdefghijklmnopqrstuvwxyz_-'')"

definition is_channel_id :: "string \<Rightarrow> bool" where
  "is_channel_id s = (length s = 24 \<and> take 2 s = ''UC'' \<and> list_all is_id_char (drop 2 s))"

text \<open>\<^verbatim>\<open>.replace(/^@/, '')\<close> removes one leading \<open>@\<close>.\<close>

definition strip_at :: "string \<Rightarrow> string" where
  "strip_at s = (case s of [] \<Rightarrow> [] | c # cs \<Rightarrow> if c = CHR ''@'' then cs else s)"

text \<open>
  \<^verbatim>\<open>.trim()\<close> on a string of bytes: the white space removed at both ends is tab, line
  feed, vertical tab, form feed, carriage return and space.
\<close>

definition is_space :: "char \<Rightarrow> bool" where
  "is_space c = (c \<in> set [CHR 0x09, CHR 0x0A, CHR 0x0B, CHR 0x0C, CHR 0x0D, CHR 0x20])"

definition trim :: "string \<Rightarrow> string" where
  "trim s = rev (dropWhile is_space (rev (dropWhile is_space s)))"

text \<open>
  One entry of \<^verbatim>\<open>search.list\<close> with \<^verbatim>\<open>type: 'channel'\<close>:
  \<^verbatim>\<open>snippet?.channelId\<close> and \<^verbatim>\<open>id?.channelId\<close>.
\<close>

record search_item =
  si_snippet_channelId :: "string option"
  si_id_channelId :: "string option"

text \<open>
  \<^verbatim>\<open>r.data?.items?.[0]?.snippet?.channelId || r.data?.items?.[0]?.id?.channelId || null\<close>,
  with \<open>None\<close> for a result that is not truthy.
\<close>

definition candidate_id :: "search_item list \<Rightarrow> string option" where
  "candidate_id items =
     (case items of
        [] \<Rightarrow> None
      | it # _ \<Rightarrow>
          (let c = or_else (si_snippet_channelId it) (si_id_channelId it)
           in if truthy c then c else None))"

text \<open>
  \<open>search\<close> is \<^verbatim>\<open>youtube.search.list\<close> for channels as a function of \<^verbatim>\<open>q\<close>. The
  first component of the result lists the queries sent to it.
\<close>

definition resolveToChannelId ::
  "(string \<Rightarrow> error + search_item list) \<Rightarrow> string \<Rightarrow> string list \<times> (error + string)" where
  "resolveToChannelId search handleOrId =
     (if is_channel_id handleOrId then ([], Inr handleOrId)
      else
        (let q = trim (strip_at handleOrId)
         in case search q of
              Inl e \<Rightarrow> ([q], Inl e)
            | Inr items \<Rightarrow>
                (case candidate_id items of
                   None \<Rightarrow> ([q], Inl (Error ''cannot resolve channelId''))
                 | Some i \<Rightarrow> ([q], Inr i))))"

text \<open>Two search doubles: one that finds a fixed channel, one that finds nothing.\<close>

definition search_finds :: "string \<Rightarrow> string \<Rightarrow> error + search_item list" where
  "search_finds cid q = Inr [\<lparr>si_snippet_channelId = Some cid, si_id_channelId = None\<rparr>]"

definition search_nothing :: "string \<Rightarrow> error + search_item list" where
  "search_nothing q = Inr []"

section \<open>The insight text: pickProvider, callOpenAI, callGemini, buildInsightText (lines 278-419)\<close>

datatype provider = OpenAI | Gemini

text \<open>
  \<open>LLM_PROVIDER\<close> is the lower-cased environment variable, \<open>OPENAI_KEY\<close> and
  \<open>GEMINI_KEY\<close> the trimmed keys; a client exists exactly when its key is non-empty.
\<close>

record llm_config =
  LLM_PROVIDER :: string
  OPENAI_KEY :: string
  GEMINI_KEY :: string

definition pickProvider :: "llm_config \<Rightarrow> provider" where
  "pickProvider cfg =
     (if LLM_PROVIDER cfg = ''gemini'' then Gemini
      else if LLM_PROVIDER cfg = ''openai'' then OpenAI
      else if OPENAI_KEY cfg = [] \<and> GEMINI_KEY cfg \<noteq> [] then Gemini
      else OpenAI)"

text \<open>
  \<open>create\<close> is \<^verbatim>\<open>openai.chat.completions.create\<close> with the prompt built from the
  sample and the days; its value is \<^verbatim>\<open>out.choices?.[0]?.message?.content\<close>, or the
  error of a rejected call.
\<close>

definition callOpenAI ::
  "llm_config \<Rightarrow> ('s \<Rightarrow> int \<Rightarrow> error + string option) \<Rightarrow> 's \<Rightarrow> int \<Rightarrow> error + string" where
  "callOpenAI cfg create sample days =
     (if OPENAI_KEY cfg = [] then Inl (Error ''OPENAI_API_KEY not configured'')
      else (case create sample days of
              Inl e \<Rightarrow> Inl e
            | Inr content \<Rightarrow>
                (case content of
                   None \<Rightarrow> Inl (Error ''OpenAI returned empty content'')
                 | Some c \<Rightarrow>
                     if trim c = [] then Inl (Error ''OpenAI returned empty content'')
                     else Inr (trim c))))"

text \<open>
  \<open>generateContent\<close> is \<^verbatim>\<open>model.generateContent\<close> raced against the timeout; its
  value is \<^verbatim>\<open>resp?.response?.text?.()\<close>, or the error of a rejected call or of the
  timeout.
\<close>

definition callGemini ::
  "llm_config \<Rightarrow> ('s \<Rightarrow> int \<Rightarrow> error + string option) \<Rightarrow> 's \<Rightarrow> int \<Rightarrow> error + string" where
  "callGemini cfg generateContent sample days =
     (if GEMINI_KEY cfg = [] then Inl (Error ''GEMINI_API_KEY not configured'')
      else (case generateContent sample days of
              Inl e \<Rightarrow> Inl e
            | Inr content \<Rightarrow>
                if or_empty content = [] then Inl (Error ''Gemini returned empty content'')
                else Inr (or_empty content)))"

text \<open>
  The first component of the result lists the providers whose call function was
  entered, in order.
\<close>

definition buildInsightText ::
  "llm_config \<Rightarrow> ('s \<Rightarrow> int \<Rightarrow> error + string option) \<Rightarrow> ('s \<Rightarrow> int \<Rightarrow> error + string option)
    \<Rightarrow> 's \<Rightarrow> int \<Rightarrow> provider list \<times> (error + string)" where
  "buildInsightText cfg create generateContent sample days =
     (if pickProvider cfg = Gemini
      then (case callGemini cfg generateContent sample days of
              Inr text \<Rightarrow> ([Gemini], Inr text)
            | Inl e \<Rightarrow> ([Gemini, OpenAI], callOpenAI cfg create sample days))
      else (case callOpenAI cfg create sample days of
              Inr text \<Rightarrow> ([OpenAI], Inr text)
            | Inl e \<Rightarrow> ([OpenAI, Gemini], callGemini cfg generateContent sample days)))"

text \<open>The call function of a provider, and the provider that is not the given one.\<close>

definition call_provider ::
  "llm_config \<Rightarrow> ('s \<Rightarrow> int \<Rightarrow> error + string option) \<Rightarrow> ('s \<Rightarrow> int \<Rightarrow> error + string option)
    \<Rightarrow> provider \<Rightarrow> 's \<Rightarrow> int \<Rightarrow> error + string" where
  "call_provider cfg create generateContent p sample days =
     (case p of
        OpenAI \<Rightarrow> callOpenAI cfg create sample days
      | Gemini \<Rightarrow> callGemini cfg generateContent sample days)"

definition other_provider :: "provider \<Rightarrow> provider" where
  "other_provider p = (case p of OpenAI \<Rightarrow> Gemini | Gemini \<Rightarrow> OpenAI)"

text \<open>Provider doubles: one that always fails and one that answers.\<close>

definition always_fails :: "unit \<Rightarrow> int \<Rightarrow> error + string option" where
  "always_fails sample days = Inl (Error ''429'')"

definition answers :: "string \<Rightarrow> unit \<Rightarrow> int \<Rightarrow> error + string option" where
  "answers text sample days = Inr (Some text)"

definition both_keys :: llm_config where
  "both_keys = \<lparr>LLM_PROVIDER = '''', OPENAI_KEY = ''k1'', GEMINI_KEY = ''k2''\<rparr>"

section \<open>The store (lines 69-82) and its records\<close>

text \<open>
  What \<^verbatim>\<open>fetchChannelMeta\<close> builds; \<open>m_thumbnails\<close> stands for the opaque thumbnails
  object.
\<close>

record channel_meta =
  m_channelId :: string
  m_title :: "string option"
  m_description :: "string option"
  m_thumbnails :: "string option"
  m_subscriberCount :: int
  m_videoCount :: int
  m_viewCount :: int
  m_uploadsId :: "string option"
  m_fetchedAt :: string

text \<open>
  One entry of \<^verbatim>\<open>db.channels\<close>. \<open>videos\<close> is the object keyed by video id, kept as
  an association list in insertion order (the order of \<^verbatim>\<open>Object.values\<close>); assigning
  an existing key keeps its place, a new key goes to the end, which is what
  \<open>AList.update\<close> does. A missing or \<^verbatim>\<open>null\<close> cursor field is \<open>None\<close>.
\<close>

record channel =
  videos :: "(string \<times> video_row) list"
  lastSeenVideoId :: "string option"
  lastPublishedAt :: "string option"
  meta :: "channel_meta option"

type_synonym db = "string \<Rightarrow> channel option"

section \<open>Metrics: makeMetricsFromChannel (lines 247-263)\<close>

text \<open>
  Time is in milliseconds since the epoch. The date library and the locale are outside
  the program and enter as parameters:
  \<^item> \<open>now\<close> is the instant \<^verbatim>\<open>dayjs()\<close> reads;
  \<^item> \<open>parse s\<close> is the instant of \<^verbatim>\<open>dayjs(s)\<close>, \<open>None\<close> when \<open>s\<close> is not a date;
  \<^item> \<open>day_start days\<close> is the instant of
    \<^verbatim>\<open>dayjs().subtract(days, 'day').startOf('day')\<close>, the start, in the server's time
    zone, of the day that lies \<open>days\<close> days before now; it is \<open>None\<close> when that date
    is invalid (outside the range of \<^verbatim>\<open>Date\<close>, or \<open>days\<close> not a number). The
    program does nothing with \<open>days\<close> but hand it to the date library, so the type
    of \<open>days\<close> is left open: it stands for any JavaScript number;
  \<^item> \<open>collate s\<close> is the collation key of \<open>s\<close> in the server's locale:
    \<^verbatim>\<open>a.localeCompare(b)\<close> is negative, zero or positive as \<open>collate a\<close> is less
    than, equal to or greater than \<open>collate b\<close>.
\<close>

text \<open>
  \<^verbatim>\<open>dayjs(v.publishedAt)\<close>; \<^verbatim>\<open>dayjs(undefined)\<close> is the current time.
\<close>

definition published_ms :: "int \<Rightarrow> (string \<Rightarrow> int option) \<Rightarrow> video_row \<Rightarrow> int option" where
  "published_ms now parse v =
     (case r_publishedAt v of None \<Rightarrow> Some now | Some s \<Rightarrow> parse s)"

text \<open>
  \<^verbatim>\<open>t.isAfter(cutoff)\<close> compares the two instants; an invalid date on either side
  makes it false.
\<close>

definition isAfter :: "int option \<Rightarrow> int option \<Rightarrow> bool" where
  "isAfter t cutoff = (case (t, cutoff) of (Some u, Some c) \<Rightarrow> c < u | _ \<Rightarrow> False)"

text \<open>The filter \<^verbatim>\<open>(v) => dayjs(v.publishedAt).isAfter(cutoff)\<close>.\<close>

definition in_range :: "int option \<Rightarrow> int \<Rightarrow> (string \<Rightarrow> int option) \<Rightarrow> video_row \<Rightarrow> bool" where
  "in_range cutoff now parse v = isAfter (published_ms now parse v) cutoff"

text \<open>
  \<^verbatim>\<open>v.publishedAt\<close> of a row that has one. The first sort compares
  \<^verbatim>\<open>a.publishedAt.localeCompare(b.publishedAt)\<close>, that is the collation keys of these
  strings; \<^verbatim>\<open>Array.prototype.sort\<close> is stable, as \<open>sort_key\<close> is.
\<close>

definition published_str :: "video_row \<Rightarrow> string" where
  "published_str v = or_empty (r_publishedAt v)"

text \<open>\<^verbatim>\<open>v.publishedAt.slice(0, 10)\<close>\<close>

definition day_of :: "video_row \<Rightarrow> string" where
  "day_of v = take 10 (published_str v)"

text \<open>
  \<^verbatim>\<open>byDay[d] = (byDay[d] || 0) + 1\<close> on the object \<open>byDay\<close>, an association list in
  insertion order.
\<close>

definition bump_day :: "(string \<times> nat) list \<Rightarrow> string \<Rightarrow> (string \<times> nat) list" where
  "bump_day byDay d =
     AList.update d (case map_of byDay d of None \<Rightarrow> 1 | Some n \<Rightarrow> Suc n) byDay"

text \<open>The count a day has in \<open>byDay\<close>, 0 when the day is not a key.\<close>

definition day_count :: "(string \<times> nat) list \<Rightarrow> string \<Rightarrow> nat" where
  "day_count acc d = (case map_of acc d of None \<Rightarrow> 0 | Some n \<Rightarrow> n)"

definition count_days :: "video_row list \<Rightarrow> (string \<times> nat) list" where
  "count_days rows = foldl (\<lambda>byDay v. bump_day byDay (day_of v)) [] rows"

text \<open>\<^verbatim>\<open>rows.slice().sort((a, b) => b.views - a.views).slice(0, 10)\<close>\<close>

definition top10 :: "video_row list \<Rightarrow> video_row list" where
  "top10 rows = take 10 (sort_key (\<lambda>v. - r_views v) rows)"

record metrics =
  m_byDay :: "(string \<times> nat) list"
  m_rows :: "video_row list"
  m_top :: "video_row list"
  m_total :: nat

definition empty_metrics :: metrics where
  "empty_metrics = \<lparr>m_byDay = [], m_rows = [], m_top = [], m_total = 0\<rparr>"

text \<open>
  A surviving row without \<^verbatim>\<open>publishedAt\<close> makes the comparator or, at the latest,
  \<^verbatim>\<open>v.publishedAt.slice\<close> throw a TypeError before anything is returned.
\<close>

definition makeMetricsFromChannel ::
  "(string \<Rightarrow> 'k::linorder) \<Rightarrow> ('d \<Rightarrow> int option) \<Rightarrow> int \<Rightarrow> (string \<Rightarrow> int option) \<Rightarrow> db
    \<Rightarrow> string \<Rightarrow> 'd \<Rightarrow> error + metrics" where
  "makeMetricsFromChannel collate day_start now parse channels channelId days =
     (case channels channelId of
        None \<Rightarrow> Inr empty_metrics
      | Some ch \<Rightarrow>
          (let cutoff = day_start days;
               kept = filter (in_range cutoff now parse) (map snd (videos ch))
           in if list_ex (\<lambda>v. r_publishedAt v = None) kept
              then Inl (TypeError ''Cannot read properties of undefined'')
              else
                (let rows = sort_key (\<lambda>v. collate (published_str v)) kept
                 in Inr \<lparr>m_byDay = count_days rows, m_rows = rows, m_top = top10 rows,
                         m_total = length rows\<rparr>)))"

text \<open>
  The window as the specification words it: \<open>publishedAt\<close> within
  \<open>[now - days, now)\<close>, a day being 86400000 milliseconds.
\<close>

definition day_ms :: int where
  "day_ms = 86400000"

definition spec_window :: "int \<Rightarrow> int \<Rightarrow> int \<Rightarrow> bool" where
  "spec_window now days t = (now - days * day_ms \<le> t \<and> t < now)"

text \<open>
  Doubles for the concrete runs below. A server whose time zone is UTC: the day starts
  at a multiple of one day, and dates exist within 100 million days of the epoch. A
  locale double: the timestamps of the runs are ASCII strings of one format, which
  collate in the order of their code units.
\<close>

definition utc_day_start :: "int \<Rightarrow> int \<Rightarrow> int option" where
  "utc_day_start now days =
     (let t = now - days * day_ms
      in if - 8640000000000000 \<le> t \<and> t \<le> 8640000000000000 then Some (t - t mod day_ms)
         else None)"

text \<open>
  A server nine hours ahead of UTC (Asia/Seoul, no daylight saving): its day starts at
  15:00 UTC of the day before.
\<close>

definition seoul_day_start :: "int \<Rightarrow> int \<Rightarrow> int option" where
  "seoul_day_start now days =
     (let t = now - days * day_ms; l = t + 32400000
      in if - 8640000000000000 \<le> l - l mod day_ms - 32400000 \<and> t \<le> 8640000000000000
         then Some (l - l mod day_ms - 32400000)
         else None)"

definition code_units :: "string \<Rightarrow> string" where
  "code_units s = s"

text \<open>
  A parser double: the instants of the timestamps used in the concrete runs below, all
  in January 1970.
\<close>

definition parse_jan70 :: "string \<Rightarrow> int option" where
  "parse_jan70 s =
     map_of
       [(''1970-01-05T00:00:00Z'', 345600000),
        (''1970-01-08T21:00:00Z'', 680400000),
        (''1970-01-09T08:00:00Z'', 720000000),
        (''1970-01-10T06:00:00Z'', 799200000),
        (''1970-01-10T09:00:00Z'', 810000000),
        (''1970-01-11T01:00:00Z'', 867600000),
        (''1970-01-12T00:00:00Z'', 950400000)] s"

text \<open>The clock reads 1970-01-11T12:00:00Z.\<close>

definition noon_jan11 :: int where
  "noon_jan11 = 907200000"

definition row_at :: "string \<Rightarrow> string \<Rightarrow> int \<Rightarrow> video_row" where
  "row_at i t n =
     \<lparr>r_videoId = i, r_title = [], r_description = [], r_publishedAt = Some t,
      r_channelId = None, r_channelTitle = None, r_duration = None,
      r_views = n, r_likes = 0, r_comments = 0\<rparr>"

definition channel_of :: "video_row list \<Rightarrow> channel" where
  "channel_of vs =
     \<lparr>videos = map (\<lambda>v. (r_videoId v, v)) vs, lastSeenVideoId = None, lastPublishedAt = None,
      meta = None\<rparr>"

definition one_channel :: "string \<Rightarrow> video_row list \<Rightarrow> db" where
  "one_channel cid vs = (\<lambda>c. if c = cid then Some (channel_of vs) else None)"

section \<open>The persisted store: loadDB, saveDB (lines 69-82)\<close>

text \<open>
  The file \<^verbatim>\<open>yt-store.json\<close>: absent, present but unreadable (any failure inside the
  \<^verbatim>\<open>try\<close> of \<^verbatim>\<open>loadDB\<close>), or holding a document. \<open>writes\<close> counts the calls of
  \<^verbatim>\<open>fs.writeFileSync\<close> on it.
\<close>

datatype db_file = Absent | Unreadable | Stored db

record store =
  disk :: db_file
  writes :: nat

definition empty_db :: db where
  "empty_db = (\<lambda>c. None)"

definition loadDB :: "store \<Rightarrow> db \<times> store" where
  "loadDB st =
     (case disk st of
        Absent \<Rightarrow> (empty_db, \<lparr>disk = Stored empty_db, writes = Suc (writes st)\<rparr>)
      | Unreadable \<Rightarrow> (empty_db, st)
      | Stored d \<Rightarrow> (d, st))"

definition saveDB :: "db \<Rightarrow> store \<Rightarrow> store" where
  "saveDB d st = \<lparr>disk = Stored d, writes = Suc (writes st)\<rparr>"

text \<open>The cursor a channel has in the store: \<^verbatim>\<open>lastSeenVideoId\<close> and \<^verbatim>\<open>lastPublishedAt\<close>.\<close>

definition cursor_of :: "store \<Rightarrow> string \<Rightarrow> string option \<times> string option" where
  "cursor_of st c =
     (case disk st of
        Stored d \<Rightarrow>
          (case d c of
             None \<Rightarrow> (None, None)
           | Some ch \<Rightarrow> (lastSeenVideoId ch, lastPublishedAt ch))
      | _ \<Rightarrow> (None, None))"

section \<open>Responses\<close>

text \<open>
  What \<^verbatim>\<open>res.json\<close> is given: an object is the list of its fields in order.
  \<open>Reply\<close> is \<^verbatim>\<open>res.json(obj)\<close>, \<open>Status n\<close> is \<^verbatim>\<open>res.status(n).json(obj)\<close>.
\<close>

datatype json =
    JNull
  | JBool bool
  | JNum int
  | JStr string
  | JRows "video_row list"
  | JCounts "(string \<times> nat) list"
  | JObj "(string \<times> json) list"

datatype reply = Reply "(string \<times> json) list" | Status nat "(string \<times> json) list"

text \<open>\<^verbatim>\<open>e.message || String(e)\<close>\<close>

definition message :: "error \<Rightarrow> string" where
  "message e =
     (case e of
        Error m \<Rightarrow> if m = [] then ''Error'' else m
      | RangeError m \<Rightarrow> if m = [] then ''RangeError'' else m
      | TypeError m \<Rightarrow> if m = [] then ''TypeError'' else m)"

definition metrics_json :: "metrics \<Rightarrow> (string \<times> json) list" where
  "metrics_json m =
     [(''byDay'', JCounts (m_byDay m)), (''rows'', JRows (m_rows m)),
      (''top'', JRows (m_top m)), (''total'', JNum (int (m_total m)))]"

definition opt_json :: "string option \<Rightarrow> json" where
  "opt_json s = (case s of None \<Rightarrow> JNull | Some t \<Rightarrow> JStr t)"

definition meta_json :: "channel_meta \<Rightarrow> (string \<times> json) list" where
  "meta_json m =
     [(''channelId'', JStr (m_channelId m)), (''title'', opt_json (m_title m)),
      (''description'', opt_json (m_description m)),
      (''thumbnails'', opt_json (m_thumbnails m)),
      (''stats'', JObj [(''subscriberCount'', JNum (m_subscriberCount m)),
                       (''videoCount'', JNum (m_videoCount m)),
                       (''viewCount'', JNum (m_viewCount m))]),
      (''uploadsId'', opt_json (m_uploadsId m)), (''fetchedAt'', JStr (m_fetchedAt m))]"

section \<open>The upstream and the environment\<close>

text \<open>
  One entry of \<^verbatim>\<open>channels.list\<close>: the fields of \<^verbatim>\<open>snippet\<close>, \<^verbatim>\<open>statistics\<close> and
  \<^verbatim>\<open>contentDetails?.relatedPlaylists?.uploads\<close>.
\<close>

record channel_item =
  ci_title :: "string option"
  ci_description :: "string option"
  ci_thumbnails :: "string option"
  ci_subscriberCount :: "int option"
  ci_videoCount :: "int option"
  ci_viewCount :: "int option"
  ci_uploads :: "string option"

text \<open>
  The four calls of the video platform's API the server makes, each a function of its
  arguments: the playlist id and page token, the batch of video ids, the channel search
  term, the channel id.
\<close>

record upstream =
  up_playlistItems :: "string \<Rightarrow> string option \<Rightarrow> error + pl_response"
  up_videos :: "string list \<Rightarrow> error + yt_video list"
  up_search :: "string \<Rightarrow> error + search_item list"
  up_channels :: "string \<Rightarrow> error + channel_item list"

text \<open>
  The environment: the two numeric settings, \<^verbatim>\<open>new Date(s).toISOString()\<close>, the value
  of \<^verbatim>\<open>new Date().toISOString()\<close>, the clock of \<^verbatim>\<open>dayjs()\<close>, the parser
  \<^verbatim>\<open>dayjs(s)\<close> and the test whether a cached meta is less than 24 hours old.
\<close>

record config =
  cfg_RAW_FETCH_MAX :: int
  cfg_RAW_BATCH :: int
  cfg_toISOString :: "string \<Rightarrow> string option"
  cfg_now_iso :: string
  cfg_now :: int
  cfg_parse :: "string \<Rightarrow> int option"
  cfg_fresh :: "channel_meta \<Rightarrow> bool"

section \<open>Channel meta and uploads playlist (lines 126-158)\<close>

definition fetchChannelMeta :: "config \<Rightarrow> upstream \<Rightarrow> string \<Rightarrow> error + channel_meta" where
  "fetchChannelMeta cfg up channelId =
     (case up_channels up channelId of
        Inl e \<Rightarrow> Inl e
      | Inr items \<Rightarrow>
          (case items of
             [] \<Rightarrow> Inl (Error ''channel not found'')
           | it # _ \<Rightarrow>
               Inr \<lparr>m_channelId = channelId, m_title = ci_title it,
                    m_description = ci_description it, m_thumbnails = ci_thumbnails it,
                    m_subscriberCount = or_zero (ci_subscriberCount it),
                    m_videoCount = or_zero (ci_videoCount it),
                    m_viewCount = or_zero (ci_viewCount it),
                    m_uploadsId = (if truthy (ci_uploads it) then ci_uploads it else None),
                    m_fetchedAt = cfg_now_iso cfg\<rparr>))"

definition getUploadsPlaylistId :: "upstream \<Rightarrow> string \<Rightarrow> error + string" where
  "getUploadsPlaylistId up channelId =
     (case up_channels up channelId of
        Inl e \<Rightarrow> Inl e
      | Inr items \<Rightarrow>
          (case items of
             [] \<Rightarrow> Inl (Error ''uploads playlist not found'')
           | it # _ \<Rightarrow>
               (case ci_uploads it of
                  None \<Rightarrow> Inl (Error ''uploads playlist not found'')
                | Some u \<Rightarrow>
                    if u = [] then Inl (Error ''uploads playlist not found'') else Inr u)))"

section \<open>The route /api/yt/resolve (lines 426-445)\<close>

text \<open>\<^verbatim>\<open>db.channels[channelId] || { videos: {} }\<close>\<close>

definition new_channel :: channel where
  "new_channel = \<lparr>videos = [], lastSeenVideoId = None, lastPublishedAt = None, meta = None\<rparr>"

definition channel_or_new :: "db \<Rightarrow> string \<Rightarrow> channel" where
  "channel_or_new d c = (case d c of None \<Rightarrow> new_channel | Some ch \<Rightarrow> ch)"

definition resolve_route :: "config \<Rightarrow> upstream \<Rightarrow> string \<Rightarrow> store \<Rightarrow> reply \<times> store" where
  "resolve_route cfg up handle st =
     (case snd (resolveToChannelId (up_search up) handle) of
        Inl e \<Rightarrow> (Status 500 [(''error'', JStr (message e))], st)
      | Inr channelId \<Rightarrow>
          (case loadDB st of
             (d, st1) \<Rightarrow>
               (case (case meta (channel_or_new d channelId) of
                        None \<Rightarrow> fetchChannelMeta cfg up channelId
                      | Some cached \<Rightarrow>
                          if cfg_fresh cfg cached then Inr cached
                          else fetchChannelMeta cfg up channelId) of
                  Inl e \<Rightarrow> (Status 500 [(''error'', JStr (message e))], st1)
                | Inr m \<Rightarrow>
                    (Reply (meta_json m),
                     saveDB (d(channelId \<mapsto> (channel_or_new d channelId)\<lparr>meta := Some m\<rparr>)) st1))))"

section \<open>The route /api/yt/ingest (lines 453-500)\<close>

text \<open>
  The request body: \<^verbatim>\<open>handle\<close>, \<^verbatim>\<open>channelId\<close>, \<^verbatim>\<open>since\<close> and the truth value of
  \<^verbatim>\<open>backfill\<close> (false when absent).
\<close>

record ingest_body =
  b_handle :: "string option"
  b_channelId :: "string option"
  b_since :: "string option"
  b_backfill :: bool

text \<open>
  \<^verbatim>\<open>channelIdIn || (handle ? await resolveToChannelId(handle) : null)\<close> followed by
  \<^verbatim>\<open>if (!channelId) throw new Error('channelId/handle required')\<close>.
\<close>

definition channel_of_request ::
  "upstream \<Rightarrow> string option \<Rightarrow> string option \<Rightarrow> error + string" where
  "channel_of_request up channelIdIn handle =
     (case channelIdIn of
        Some c \<Rightarrow>
          if c \<noteq> [] then Inr c
          else (case handle of
                  Some h \<Rightarrow>
                    if h \<noteq> [] then snd (resolveToChannelId (up_search up) h)
                    else Inl (Error ''channelId/handle required'')
                | None \<Rightarrow> Inl (Error ''channelId/handle required''))
      | None \<Rightarrow>
          (case handle of
             Some h \<Rightarrow>
               if h \<noteq> [] then snd (resolveToChannelId (up_search up) h)
               else Inl (Error ''channelId/handle required'')
           | None \<Rightarrow> Inl (Error ''channelId/handle required'')))"

text \<open>\<^verbatim>\<open>for (const v of details) ch.videos[v.videoId] = v\<close>\<close>

definition merge_videos :: "video_row list \<Rightarrow> (string \<times> video_row) list \<Rightarrow> (string \<times> video_row) list" where
  "merge_videos details vs = foldl (\<lambda>acc v. AList.update (r_videoId v) v acc) vs details"

text \<open>
  The cursor update of the incremental mode, with \<open>newest\<close> the last element of the
  walked list: \<^verbatim>\<open>newest?.id || ch.lastSeenVideoId\<close> and
  \<^verbatim>\<open>newest?.publishedAt || ch.lastPublishedAt\<close>.
\<close>

definition advance_cursor :: "new_video list \<Rightarrow> channel \<Rightarrow> channel" where
  "advance_cursor newList ch =
     (case rev newList of
        [] \<Rightarrow> ch
      | newest # _ \<Rightarrow>
          ch\<lparr>lastSeenVideoId := or_else (Some (nv_id newest)) (lastSeenVideoId ch),
             lastPublishedAt := or_else (nv_publishedAt newest) (lastPublishedAt ch)\<rparr>)"

text \<open>
  \<^verbatim>\<open>if (!ch.meta) { try { ch.meta = await fetchChannelMeta(channelId); } catch {} }\<close>
\<close>

definition fill_meta :: "config \<Rightarrow> upstream \<Rightarrow> string \<Rightarrow> channel \<Rightarrow> channel" where
  "fill_meta cfg up channelId ch =
     (case meta ch of
        Some m \<Rightarrow> ch
      | None \<Rightarrow>
          (case fetchChannelMeta cfg up channelId of
             Inl e \<Rightarrow> ch
           | Inr m \<Rightarrow> ch\<lparr>meta := Some m\<rparr>))"

definition ingest_error :: "error \<Rightarrow> reply" where
  "ingest_error e = Status 500 [(''ok'', JBool False), (''error'', JStr (message e))]"

definition ingest_ok :: "nat \<Rightarrow> string \<Rightarrow> bool \<Rightarrow> reply" where
  "ingest_ok added channelId backfill =
     Reply [(''ok'', JBool True), (''added'', JNum (int added)), (''channelId'', JStr channelId),
            (''backfill'', JBool backfill)]"

text \<open>
  The route, from \<^verbatim>\<open>loadDB()\<close> to the response. The result is the response and the
  store afterwards; it is \<open>None\<close> when the feed walk does not return.
\<close>

definition ingest :: "config \<Rightarrow> upstream \<Rightarrow> ingest_body \<Rightarrow> store \<Rightarrow> (reply \<times> store) option" where
  "ingest cfg up body st =
     (case loadDB st of
        (d, st1) \<Rightarrow>
          (case channel_of_request up (b_channelId body) (b_handle body) of
             Inl e \<Rightarrow> Some (ingest_error e, st1)
           | Inr channelId \<Rightarrow>
               (case getUploadsPlaylistId up channelId of
                  Inl e \<Rightarrow> Some (ingest_error e, st1)
                | Inr uploadsId \<Rightarrow>
                    (let ch = channel_or_new d channelId
                     in case listNewVideoIds (cfg_toISOString cfg) (up_playlistItems up)
                               (cfg_RAW_FETCH_MAX cfg) uploadsId (b_since body)
                               (lastSeenVideoId ch) (b_backfill body) of
                          None \<Rightarrow> None
                        | Some (Inl e) \<Rightarrow> Some (ingest_error e, st1)
                        | Some (Inr newList) \<Rightarrow>
                            if map nv_id newList = []
                            then Some (ingest_ok 0 channelId (b_backfill body), st1)
                            else
                              (case snd (fetchVideoDetails (up_videos up) (cfg_RAW_BATCH cfg)
                                           (map nv_id newList)) of
                                 Inl e \<Rightarrow> Some (ingest_error e, st1)
                               | Inr details \<Rightarrow>
                                   (let ch1 = ch\<lparr>videos := merge_videos details (videos ch)\<rparr>;
                                        ch2 = (if \<not> b_backfill body
                                               then advance_cursor newList ch1 else ch1);
                                        ch3 = fill_meta cfg up channelId ch2
                                    in Some (ingest_ok (length details) channelId (b_backfill body),
                                             saveDB (d(channelId \<mapsto> ch3)) st1)))))))"

section \<open>The route /api/yt/metrics-by-handle (lines 503-517)\<close>

definition metrics_by_handle ::
  "(string \<Rightarrow> 'k::linorder) \<Rightarrow> ('d \<Rightarrow> int option) \<Rightarrow> config \<Rightarrow> upstream \<Rightarrow> string option
    \<Rightarrow> string option \<Rightarrow> 'd \<Rightarrow> store \<Rightarrow> reply \<times> store" where
  "metrics_by_handle collate day_start cfg up channelIdQ handle days st =
     (if \<not> truthy channelIdQ \<and> \<not> truthy handle then (Reply (metrics_json empty_metrics), st)
      else
        (case channel_of_request up channelIdQ handle of
           Inl e \<Rightarrow> (Status 500 [(''error'', JStr (message e))], st)
         | Inr channelId \<Rightarrow>
             (case loadDB st of
                (d, st1) \<Rightarrow>
                  (case makeMetricsFromChannel collate day_start (cfg_now cfg) (cfg_parse cfg) d
                          channelId days of
                     Inl e \<Rightarrow> (Status 500 [(''error'', JStr (message e))], st1)
                   | Inr m \<Rightarrow> (Reply (metrics_json m), st1)))))"

section \<open>Keyword search: isMatchAllKeywords and /api/yt/metrics-by-query (lines 268-271, 520-594)\<close>

text \<open>\<^verbatim>\<open>toLowerCase\<close> on the ASCII letters, and \<^verbatim>\<open>t.includes(k)\<close>.\<close>

definition toLowerCase :: "string \<Rightarrow> string" where
  "toLowerCase s =
     map (\<lambda>c. if CHR ''A'' \<le> c \<and> c \<le> CHR ''Z'' then char_of (of_char c + (32::nat)) else c) s"

definition includes_str :: "string \<Rightarrow> string \<Rightarrow> bool" where
  "includes_str t k = list_ex (prefix k) (suffixes t)"

definition isMatchAllKeywords :: "string \<Rightarrow> string list \<Rightarrow> bool" where
  "isMatchAllKeywords text keywords =
     list_all (\<lambda>k. includes_str (toLowerCase text) (toLowerCase k)) keywords"

text \<open>\<^verbatim>\<open>q.split(',')\<close> and \<^verbatim>\<open>keywords.join(' ')\<close>.\<close>

fun split_comma :: "string \<Rightarrow> string list" where
  "split_comma [] = [[]]"
| "split_comma (c # cs) =
     (if c = CHR '','' then [] # split_comma cs
      else (case split_comma cs of [] \<Rightarrow> [[c]] | w # ws \<Rightarrow> (c # w) # ws))"

fun join_space :: "string list \<Rightarrow> string" where
  "join_space [] = []"
| "join_space [w] = w"
| "join_space (w # ws) = w @ '' '' @ join_space ws"

text \<open>\<^verbatim>\<open>q.split(',').map((s) => s.trim()).filter(Boolean)\<close>\<close>

definition keywords_of :: "string \<Rightarrow> string list" where
  "keywords_of q = filter (\<lambda>s. s \<noteq> []) (map trim (split_comma q))"

text \<open>One entry and one page of \<^verbatim>\<open>search.list\<close> with \<^verbatim>\<open>type: 'video'\<close>.\<close>

record sv_item =
  sv_videoId :: "string option"
  sv_title :: "string option"
  sv_description :: "string option"

record sv_response =
  sv_items :: "sv_item list"
  sv_nextPageToken :: "string option"

text \<open>The ids one page adds to \<^verbatim>\<open>videoIds\<close>: the items with an id whose text matches.\<close>

definition matching_ids :: "string list \<Rightarrow> sv_item list \<Rightarrow> string list" where
  "matching_ids keywords its =
     map (\<lambda>it. or_empty (sv_videoId it))
       (filter (\<lambda>it. truthy (sv_videoId it)
                  \<and> isMatchAllKeywords
                       (or_empty (sv_title it) @ [CHR 0x0A] @ or_empty (sv_description it))
                       keywords) its)"

text \<open>
  The loop \<^verbatim>\<open>do { ... } while (pageToken && pages < YT_SEARCH_MAX_PAGES)\<close>; \<open>search\<close>
  is the search call as a function of the page token.
\<close>

function search_loop ::
  "(string option \<Rightarrow> error + sv_response) \<Rightarrow> string list \<Rightarrow> int \<Rightarrow> string option \<Rightarrow> int
    \<Rightarrow> string list \<Rightarrow> error + string list" where
  "search_loop search keywords maxPages pageToken pages videoIds =
     (case search pageToken of
        Inl e \<Rightarrow> Inl e
      | Inr r \<Rightarrow>
          (let videoIds' = videoIds @ matching_ids keywords (sv_items r)
           in if truthy (sv_nextPageToken r) \<and> pages + 1 < maxPages
              then search_loop search keywords maxPages (sv_nextPageToken r) (pages + 1) videoIds'
              else Inr videoIds'))"
  by pat_completeness auto
termination
  by (relation "measure (\<lambda>(search, keywords, maxPages, pageToken, pages, videoIds).
                 nat (maxPages - pages))") auto

text \<open>
  The environment of the route: the clock and the parser as before, and the two
  numeric settings.
\<close>

record query_config =
  q_now :: int
  q_parse :: "string \<Rightarrow> int option"
  q_RAW_BATCH :: int
  q_MAX_PAGES :: int

text \<open>
  The route. \<open>publishedAfter_of days\<close> is
  \<^verbatim>\<open>dayjs().subtract(days, 'day').startOf('day').toISOString()\<close>, \<open>None\<close> when the
  date is invalid and \<^verbatim>\<open>toISOString\<close> throws. \<open>searchVideos\<close> takes the joined
  keywords, \<^verbatim>\<open>publishedAfter\<close> and the page token. The hydration loop of lines 558-579
  is the body of \<open>fetchVideoDetails\<close> written out again, so it is that function
  here. The rows are filtered by
  \<^verbatim>\<open>dayjs(v.publishedAt).isAfter(dayjs(publishedAfter))\<close>.
\<close>

definition metrics_by_query ::
  "(string \<Rightarrow> 'k::linorder) \<Rightarrow> ('d \<Rightarrow> string option) \<Rightarrow> query_config
    \<Rightarrow> (string \<Rightarrow> string \<Rightarrow> string option \<Rightarrow> error + sv_response)
    \<Rightarrow> (string list \<Rightarrow> error + yt_video list) \<Rightarrow> string \<Rightarrow> 'd \<Rightarrow> reply" where
  "metrics_by_query collate publishedAfter_of cfg searchVideos videos_list q_raw days =
     (let q = trim q_raw
      in if q = []
         then Reply [(''query'', JNull), (''byDay'', JCounts []), (''rows'', JRows []),
                     (''top'', JRows []), (''total'', JNum 0)]
         else
           (let keywords = keywords_of q
            in case publishedAfter_of days of
                 None \<Rightarrow> Status 500 [(''error'', JStr (message (RangeError ''Invalid time value'')))]
               | Some publishedAfter \<Rightarrow>
                   (case search_loop (searchVideos (join_space keywords) publishedAfter) keywords
                           (q_MAX_PAGES cfg) None 0 [] of
                      Inl e \<Rightarrow> Status 500 [(''error'', JStr (message e))]
                    | Inr videoIds \<Rightarrow>
                        (case snd (fetchVideoDetails videos_list (q_RAW_BATCH cfg) videoIds) of
                           Inl e \<Rightarrow> Status 500 [(''error'', JStr (message e))]
                         | Inr rows \<Rightarrow>
                             (let kept = filter (in_range (q_parse cfg publishedAfter) (q_now cfg)
                                                   (q_parse cfg)) rows
                              in if list_ex (\<lambda>v. r_publishedAt v = None) kept
                                 then Status 500
                                        [(''error'',
                                          JStr (message
                                                 (TypeError ''Cannot read properties of undefined'')))]
                                 else
                                   (let filtered = sort_key (\<lambda>v. collate (published_str v)) kept
                                    in Reply [(''query'', JStr q),
                                              (''byDay'', JCounts (count_days filtered)),
                                              (''rows'', JRows filtered),
                                              (''top'', JRows (top10 filtered)),
                                              (''total'', JNum (int (length filtered)))]))))))"

text \<open>The names of the fields of a response, in order.\<close>

definition field_names :: "reply \<Rightarrow> string list" where
  "field_names r = (case r of Reply fs \<Rightarrow> map fst fs | Status n fs \<Rightarrow> map fst fs)"

text \<open>
  A search double with one page of two candidates, a video double that dates every
  video on 10 January 1970, a date double whose window starts on 9 January 1970, and
  the environment to go with them.
\<close>

definition demo_search :: "string \<Rightarrow> string \<Rightarrow> string option \<Rightarrow> error + sv_response" where
  "demo_search q publishedAfter pageToken =
     Inr \<lparr>sv_items =
            [\<lparr>sv_videoId = Some ''v1'', sv_title = Some ''LG AC event'',
              sv_description = Some ''our newest air conditioner''\<rparr>,
             \<lparr>sv_videoId = Some ''v2'', sv_title = Some ''LG TV'', sv_description = None\<rparr>],
          sv_nextPageToken = None\<rparr>"

definition dated_video :: "string \<Rightarrow> yt_video" where
  "dated_video i =
     \<lparr>v_id = i, v_title = Some ''t'', v_description = None,
      v_publishedAt = Some ''1970-01-10T06:00:00Z'',
      v_channelId = Some ''UC0123456789abcdefABCD_-'', v_channelTitle = Some ''LG'',
      v_duration = None, v_viewCount = Some 12, v_likeCount = None, v_commentCount = None\<rparr>"

definition dated_found :: "string list \<Rightarrow> error + yt_video list" where
  "dated_found batch = Inr (map dated_video batch)"

definition jan09 :: "int \<Rightarrow> string option" where
  "jan09 days = Some ''1970-01-09T00:00:00.000Z''"

definition demo_query_config :: query_config where
  "demo_query_config =
     \<lparr>q_now = noon_jan11,
      q_parse = (\<lambda>s. if s = ''1970-01-09T00:00:00.000Z'' then Some 691200000 else parse_jan70 s),
      q_RAW_BATCH = 50, q_MAX_PAGES = 20\<rparr>"

section \<open>A small world for concrete runs\<close>

text \<open>
  An upstream whose upload feed has the four items \<open>ex_a\<close>, \<open>ex_b\<close>, \<open>ex_x\<close>,
  \<open>ex_d\<close> in two pages, that finds every video and every channel, and an environment
  with the default limits.
\<close>

definition demo_channel_item :: channel_item where
  "demo_channel_item =
     \<lparr>ci_title = Some ''LG'', ci_description = None, ci_thumbnails = None,
      ci_subscriberCount = Some 10, ci_videoCount = Some 4, ci_viewCount = Some 100,
      ci_uploads = Some ''UU0123456789abcdefABCD_-''\<rparr>"

definition demo_upstream :: upstream where
  "demo_upstream =
     \<lparr>up_playlistItems = serve [[ex_a, ex_b], [ex_x, ex_d]],
      up_videos = all_found,
      up_search = search_nothing,
      up_channels = (\<lambda>c. Inr [demo_channel_item])\<rparr>"

definition demo_config :: config where
  "demo_config =
     \<lparr>cfg_RAW_FETCH_MAX = 2000, cfg_RAW_BATCH = 50, cfg_toISOString = Some,
      cfg_now_iso = ''1970-01-11T12:00:00.000Z'', cfg_now = noon_jan11,
      cfg_parse = parse_jan70, cfg_fresh = (\<lambda>m. True)\<rparr>"

definition demo_id :: string where
  "demo_id = ''UC0123456789abcdefABCD_-''"

definition demo_body :: "bool \<Rightarrow> ingest_body" where
  "demo_body bf = \<lparr>b_handle = None, b_channelId = Some demo_id, b_since = None, b_backfill = bf\<rparr>"

text \<open>A store that does not exist yet, and one whose channel has its cursor at \<open>ex_x\<close>.\<close>

definition no_store :: store where
  "no_store = \<lparr>disk = Absent, writes = 0\<rparr>"

definition cursor_at_x :: channel where
  "cursor_at_x =
     \<lparr>videos = [], lastSeenVideoId = Some ''x'', lastPublishedAt = Some ''2023-12-01T00:00:00Z'',
      meta = None\<rparr>"

definition store_at_x :: store where
  "store_at_x = \<lparr>disk = Stored (\<lambda>c. if c = demo_id then Some cursor_at_x else None), writes = 1\<rparr>"

text \<open>Rows of the metrics examples: three days inside the window of two days, one outside.\<close>

definition demo_rows :: "video_row list" where
  "demo_rows =
     [row_at ''a'' ''1970-01-10T06:00:00Z'' 5, row_at ''e'' ''1970-01-10T09:00:00Z'' 1,
      row_at ''f'' ''1970-01-09T08:00:00Z'' 3, row_at ''o'' ''1970-01-05T00:00:00Z'' 9,
      row_at ''d'' ''1970-01-11T01:00:00Z'' 7]"

definition demo_metrics :: metrics where
  "demo_metrics =
     \<lparr>m_byDay = [(''1970-01-09'', 1), (''1970-01-10'', 2), (''1970-01-11'', 1)],
      m_rows = [row_at ''f'' ''1970-01-09T08:00:00Z'' 3, row_at ''a'' ''1970-01-10T06:00:00Z'' 5,
                row_at ''e'' ''1970-01-10T09:00:00Z'' 1, row_at ''d'' ''1970-01-11T01:00:00Z'' 7],
      m_top = [row_at ''d'' ''1970-01-11T01:00:00Z'' 7, row_at ''a'' ''1970-01-10T06:00:00Z'' 5,
               row_at ''f'' ''1970-01-09T08:00:00Z'' 3, row_at ''e'' ''1970-01-10T09:00:00Z'' 1],
      m_total = 4\<rparr>"

section \<open>Properties of the feed walker\<close>

text \<open>Scanning two pages in a row is scanning the first and, unless it stopped, the second.\<close>

lemma scan_items_append:
  "scan_items cap c ls bf (xs @ ys) out =
     (case scan_items cap c ls bf xs out of
        (out', stop) \<Rightarrow> if stop then (out', True) else scan_items cap c ls bf ys out')"
  by (induction xs arbitrary: out) (auto simp: Let_def split: option.splits)

lemma serve_token:
  "serve pages u (token_of i) =
     Inr \<lparr>pl_items = (if i < length pages then pages ! i else []),
          nextPageToken = (if Suc i < length pages then Some (page_token (Suc i)) else None)\<rparr>"
  by (simp add: serve_def token_of_def page_token_def)

text \<open>
  Over a served feed the page loop always returns, and it returns what one scan of the
  concatenated remaining pages leaves in the buffer, reversed.
\<close>

lemma walk_serve:
  "walk_pages (serve pages u) cap c ls bf (token_of i) out =
     Some (Inr (rev (fst (scan_items cap c ls bf (concat (drop i pages)) out))))"
proof (induction "length pages - i" arbitrary: i out)
  case 0
  then have "drop i pages = []" by simp
  with 0 show ?case
    by (subst walk_pages.simps) (simp add: serve_token next_token_def truthy_def)
next
  case (Suc n)
  then have lt: "i < length pages" by simp
  then have d: "drop i pages = pages ! i # drop (Suc i) pages"
    by (simp add: Cons_nth_drop_Suc)
  obtain o1 s1 where sc: "scan_items cap c ls bf (pages ! i) out = (o1, s1)"
    by (cases "scan_items cap c ls bf (pages ! i) out")
  show ?case
  proof (cases s1)
    case True
    with sc lt d show ?thesis
      by (subst walk_pages.simps) (simp add: serve_token scan_items_append)
  next
    case False
    show ?thesis
    proof (cases "Suc i < length pages")
      case True
      from Suc(2) have "n = length pages - Suc i" by simp
      from Suc(1)[OF this, of o1]
      have ih: "walk_pages (serve pages u) cap c ls bf (token_of (Suc i)) o1 =
              Some (Inr (rev (fst (scan_items cap c ls bf (concat (drop (Suc i) pages)) o1))))" .
      have tk: "token_of (Suc i) = Some (page_token (Suc i))" by (simp add: token_of_def)
      from sc lt d False True ih show ?thesis
        by (subst walk_pages.simps)
           (simp add: serve_token scan_items_append next_token_def truthy_def tk page_token_def)
    next
      case F2: False
      with lt have "drop (Suc i) pages = []" by simp
      with sc lt d False F2 show ?thesis
        by (subst walk_pages.simps)
           (simp add: serve_token scan_items_append next_token_def truthy_def)
    qed
  qed
qed

text \<open>While every item passes and the cap is not reached, the buffer grows item by item.\<close>

lemma scan_items_take:
  "\<forall>it\<in>set xs. passes c ls bf it \<Longrightarrow> int (length out) < cap \<Longrightarrow>
   fst (scan_items cap c ls bf xs out) = out @ map to_new_video (take (nat cap - length out) xs)"
proof (induction xs arbitrary: out)
  case Nil
  then show ?case by simp
next
  case (Cons it xs)
  from Cons.prems(1) obtain i where i: "videoId it = Some i" "i \<noteq> []"
    by (auto simp: passes_def truthy_def split: option.splits)
  from Cons.prems(1) i have nc: "\<not> (\<not> bf \<and> truthy ls \<and> Some i = ls)"
    and nb: "\<not> before_cutoff c (videoPublishedAt it)"
    by (auto simp: passes_def)
  have tn: "to_new_video it = \<lparr>nv_id = i, nv_publishedAt = videoPublishedAt it\<rparr>"
    by (simp add: to_new_video_def i)
  from Cons.prems(2) obtain k where k: "nat cap - length out = Suc k"
    by (cases "nat cap - length out") auto
  show ?case
  proof (cases "int (length (out @ [to_new_video it])) \<ge> cap")
    case True
    with k have "k = 0" by auto
    with True i nc nb tn k show ?thesis by (simp add: Let_def)
  next
    case False
    then have lt: "int (length (out @ [to_new_video it])) < cap" by simp
    from Cons.prems(1) have "\<forall>it\<in>set xs. passes c ls bf it" by simp
    moreover from k have "nat cap - Suc (length out) = k" by simp
    ultimately show ?thesis using Cons.IH[OF _ lt] k False i nc nb tn
      by (simp add: Let_def)
  qed
qed

text \<open>Whatever stops the scan, the buffer has grown by a prefix of the items with an id.\<close>

lemma scan_items_prefix:
  "\<exists>ys. prefix ys (filter (\<lambda>it. truthy (videoId it)) xs)
      \<and> fst (scan_items cap c ls bf xs out) = out @ map to_new_video ys"
proof (induction xs arbitrary: out)
  case Nil
  then show ?case by simp
next
  case (Cons it xs)
  show ?case
  proof (cases "truthy (videoId it)")
    case False
    with Cons.IH[of out] show ?thesis
      by (auto simp: truthy_def split: option.splits)
  next
    case True
    then obtain i where i: "videoId it = Some i" "i \<noteq> []"
      by (auto simp: truthy_def split: option.splits)
    have tn: "to_new_video it = \<lparr>nv_id = i, nv_publishedAt = videoPublishedAt it\<rparr>"
      by (simp add: to_new_video_def i)
    have e: "prefix [] (filter (\<lambda>it. truthy (videoId it)) (it # xs))" by simp
    have one: "prefix [it] (filter (\<lambda>it. truthy (videoId it)) (it # xs))"
      using True by simp
    from Cons.IH[of "out @ [to_new_video it]"] obtain ys where
      ys: "prefix ys (filter (\<lambda>it. truthy (videoId it)) xs)"
        "fst (scan_items cap c ls bf xs (out @ [to_new_video it])) = (out @ [to_new_video it]) @ map to_new_video ys"
      by blast
    from ys(1) True have two: "prefix (it # ys) (filter (\<lambda>it. truthy (videoId it)) (it # xs))"
      by simp
    show ?thesis
    proof (cases "(\<not> bf \<and> truthy ls \<and> Some i = ls) \<or> before_cutoff c (videoPublishedAt it)")
      case True
      with i have "fst (scan_items cap c ls bf (it # xs) out) = out @ map to_new_video []" by auto
      with e show ?thesis by blast
    next
      case F: False
      show ?thesis
      proof (cases "int (length (out @ [to_new_video it])) \<ge> cap")
        case True
        with F i tn have "fst (scan_items cap c ls bf (it # xs) out) = out @ map to_new_video [it]"
          by (auto simp: Let_def)
        with one show ?thesis by blast
      next
        case False
        with F i tn ys(2) have "fst (scan_items cap c ls bf (it # xs) out) = out @ map to_new_video (it # ys)"
          by (auto simp: Let_def)
        with two show ?thesis by blast
      qed
    qed
  qed
qed

text \<open>On a served feed \<open>listNewVideoIds\<close> is one scan of the whole feed.\<close>

lemma listNewVideoIds_serve:
  "cutoff_of toISOString sinceISO = Inr c \<Longrightarrow>
   listNewVideoIds toISOString (serve pages) raw u sinceISO ls bf =
     Some (Inr (rev (fst (scan_items (YT_FETCH_MAX_NEW raw) c ls bf (concat pages) []))))"
  using walk_serve[of pages u "YT_FETCH_MAX_NEW raw" c ls bf 0 "[]"]
  by (simp add: listNewVideoIds_def token_of_def)

lemma scan_items_cursor:
  "videoId x = Some X \<Longrightarrow> X \<noteq> [] \<Longrightarrow>
   fst (scan_items cap c (Some X) False (pre @ x # post) out) =
   fst (scan_items cap c (Some X) False pre out)"
  by (simp add: scan_items_append truthy_def split: prod.splits)

lemma scan_items_no_stop:
  "\<forall>it\<in>set xs. truthy (videoId it) \<Longrightarrow> int (length out) < cap \<Longrightarrow>
   fst (scan_items cap None None bf xs out) = out @ map to_new_video (take (nat cap - length out) xs)"
  by (rule scan_items_take) (auto simp: passes_def truthy_def before_cutoff_def)

lemma feed120_concat: "concat feed120 = map feed_item [0..<120]"
proof -
  have "[0..<120] = [0..<50] @ [50..<100] @ [100..<120]"
  proof -
    have a: "[0..<50 + 50] = [0..<50] @ [50..<50 + 50]" by (rule upt_add_eq_append) simp
    have b: "[0..<100 + 20] = [0..<100] @ [100..<100 + 20]" by (rule upt_add_eq_append) simp
    from a b show ?thesis by simp
  qed
  then show ?thesis by (simp add: feed120_def)
qed


lemma feed120_ids: "\<forall>it\<in>set (concat feed120). truthy (videoId it)"
  by (auto simp: feed120_concat feed_item_def truthy_def)

subsection \<open>Cursor exclusion\<close>

text \<open>
  Claim C1, as the code has it. The feed is served in pages; the cursor \<open>X\<close> (a
  non-empty id) occurs first right after the items \<open>pre\<close>, so at position
  \<open>k = length pre + 1\<close>, and the walk is incremental (\<open>backfill = False\<close>).
  Then the walk returns, its result is the reverse (oldest first) of a prefix of the
  items of \<open>pre\<close> that have an id, and \<open>X\<close> is not among the returned ids.
  When moreover every item of \<open>pre\<close> has an id and is not older than the date
  cutoff, and \<open>pre\<close> has at most \<open>YT_FETCH_MAX_NEW\<close> items, the result is exactly
  the \<open>k - 1\<close> items of \<open>pre\<close>, reversed.
\<close>

theorem listNewVideoIds_cursor_exclusion:
  assumes feed: "concat pages = pre @ x # post"
    and x: "videoId x = Some X" "X \<noteq> []"
    and first: "\<forall>it\<in>set pre. videoId it \<noteq> Some X"
    and cut: "cutoff_of toISOString sinceISO = Inr c"
  shows "(\<exists>ys. prefix ys (filter (\<lambda>it. truthy (videoId it)) pre)
            \<and> listNewVideoIds toISOString (serve pages) raw u sinceISO (Some X) False
                = Some (Inr (rev (map to_new_video ys)))
            \<and> X \<notin> nv_id ` set (map to_new_video ys))
       \<and> ((\<forall>it\<in>set pre. truthy (videoId it) \<and> \<not> before_cutoff c (videoPublishedAt it))
            \<and> int (length pre) \<le> YT_FETCH_MAX_NEW raw
          \<longrightarrow> listNewVideoIds toISOString (serve pages) raw u sinceISO (Some X) False
                = Some (Inr (rev (map to_new_video pre))))"
proof -
  let ?cap = "YT_FETCH_MAX_NEW raw"
  have run: "listNewVideoIds toISOString (serve pages) raw u sinceISO (Some X) False =
      Some (Inr (rev (fst (scan_items ?cap c (Some X) False pre []))))"
    using listNewVideoIds_serve[OF cut, of pages raw u "Some X" False] feed
      scan_items_cursor[OF x, of ?cap c pre post "[]"]
    by simp
  obtain ys where ys: "prefix ys (filter (\<lambda>it. truthy (videoId it)) pre)"
      "fst (scan_items ?cap c (Some X) False pre []) = [] @ map to_new_video ys"
    using scan_items_prefix[of pre ?cap c "Some X" False "[]"] by blast
  have "X \<notin> nv_id ` set (map to_new_video ys)"
  proof
    assume "X \<in> nv_id ` set (map to_new_video ys)"
    then obtain it where it: "it \<in> set ys" "nv_id (to_new_video it) = X" by auto
    from it(1) ys(1) have "it \<in> set (filter (\<lambda>it. truthy (videoId it)) pre)"
      using set_mono_prefix by blast
    then have "it \<in> set pre" "truthy (videoId it)" by auto
    with it(2) first show False
      by (auto simp: to_new_video_def truthy_def split: option.splits)
  qed
  with ys run have part1: "\<exists>ys. prefix ys (filter (\<lambda>it. truthy (videoId it)) pre)
            \<and> listNewVideoIds toISOString (serve pages) raw u sinceISO (Some X) False
                = Some (Inr (rev (map to_new_video ys)))
            \<and> X \<notin> nv_id ` set (map to_new_video ys)"
    by auto
  have part2: "listNewVideoIds toISOString (serve pages) raw u sinceISO (Some X) False
                = Some (Inr (rev (map to_new_video pre)))"
    if ok: "\<forall>it\<in>set pre. truthy (videoId it) \<and> \<not> before_cutoff c (videoPublishedAt it)"
      and len: "int (length pre) \<le> ?cap"
  proof -
    from ok first have p: "\<forall>it\<in>set pre. passes c (Some X) False it"
      by (auto simp: passes_def)
    have pos: "int (length ([]::new_video list)) < ?cap" by (simp add: YT_FETCH_MAX_NEW_def)
    from len have "take (nat ?cap - length ([]::new_video list)) pre = pre" by simp
    with scan_items_take[OF p pos] run show ?thesis by simp
  qed
  from part1 part2 show ?thesis by blast
qed

text \<open>
  The theorem at a feed of two pages with the cursor at position 3 and a cutoff that
  none of the two newer items falls under.
\<close>

theorem listNewVideoIds_cursor_exclusion_witness:
  "listNewVideoIds Some (serve [[ex_a, ex_b], [ex_x, ex_d]]) 2000 ''UU''
      (Some ''2023-12-15T00:00:00.000Z'') (Some ''x'') False
    = Some (Inr [to_new_video ex_b, to_new_video ex_a])"
proof -
  have 1: "concat [[ex_a, ex_b], [ex_x, ex_d]] = [ex_a, ex_b] @ ex_x # [ex_d]" by simp
  have 2: "videoId ex_x = Some ''x''" by (simp add: ex_x_def)
  have 3: "''x'' \<noteq> []" by simp
  have 4: "\<forall>it\<in>set [ex_a, ex_b]. videoId it \<noteq> Some ''x''" by (simp add: ex_a_def ex_b_def)
  have 5: "cutoff_of Some (Some ''2023-12-15T00:00:00.000Z'') = Inr (Some ''2023-12-15T00:00:00.000Z'')"
    by (simp add: cutoff_of_def)
  have 6: "\<forall>it\<in>set [ex_a, ex_b]. truthy (videoId it)
             \<and> \<not> before_cutoff (Some ''2023-12-15T00:00:00.000Z'') (videoPublishedAt it)"
    by code_simp
  have 7: "int (length [ex_a, ex_b]) \<le> YT_FETCH_MAX_NEW 2000" by (simp add: YT_FETCH_MAX_NEW_def)
  from listNewVideoIds_cursor_exclusion[OF 1 2 3 4 5, of 2000 "''UU''"] 6 7
  show ?thesis by simp
qed

text \<open>
  Claim C1 as stated (exactly the \<open>k - 1\<close> preceding items for every feed) fails
  when another stop condition fires before the cursor is reached: with the cursor at
  position 3, a date cutoff newer than the second item, or a record cap of 1, leaves
  one item instead of two.
\<close>

theorem listNewVideoIds_cursor_exclusion_counterexample:
  "listNewVideoIds Some (serve [[ex_a, ex_b, ex_x]]) 2000 ''UU''
      (Some ''2024-02-01T00:00:00.000Z'') (Some ''x'') False
     = Some (Inr [to_new_video ex_a])
   \<and> listNewVideoIds Some (serve [[ex_a, ex_b, ex_x]]) 1 ''UU'' None (Some ''x'') False
     = Some (Inr [to_new_video ex_a])
   \<and> [to_new_video ex_a] \<noteq> rev (map to_new_video [ex_a, ex_b])"
  by code_simp

subsection \<open>Record cap\<close>

text \<open>
  Claim C4, as the code has it. A feed of 120 items, each with an id, walked with
  \<open>YT_FETCH_MAX_NEW = 100\<close>, no cursor and no date cutoff: the walk returns exactly
  100 items, the first 100 of the feed in reverse (oldest first), so the item that
  fills the buffer is included. The first item of the result (the oldest kept) is the
  100th item of the feed, and the 100th item of the result (the newest kept) is the
  first item of the feed.
\<close>

theorem listNewVideoIds_record_cap:
  assumes len: "length (concat pages) = 120"
    and ids: "\<forall>it\<in>set (concat pages). truthy (videoId it)"
  shows "listNewVideoIds toISOString (serve pages) 100 u None None backfill
           = Some (Inr (rev (map to_new_video (take 100 (concat pages)))))
       \<and> result_length (listNewVideoIds toISOString (serve pages) 100 u None None backfill) = Some 100
       \<and> nth_result (listNewVideoIds toISOString (serve pages) 100 u None None backfill) 0
           = Some (to_new_video (concat pages ! 99))
       \<and> nth_result (listNewVideoIds toISOString (serve pages) 100 u None None backfill) 99
           = Some (to_new_video (concat pages ! 0))"
proof -
  let ?feed = "concat pages"
  have c: "cutoff_of toISOString None = Inr None" by (simp add: cutoff_of_def)
  have cap: "YT_FETCH_MAX_NEW 100 = 100" by (simp add: YT_FETCH_MAX_NEW_def)
  have "fst (scan_items 100 None None backfill ?feed []) = [] @ map to_new_video (take (nat 100 - length ([]::new_video list)) ?feed)"
    by (rule scan_items_no_stop[OF ids]) simp
  with listNewVideoIds_serve[OF c, of pages 100 u None backfill] cap
  have run: "listNewVideoIds toISOString (serve pages) 100 u None None backfill
           = Some (Inr (rev (map to_new_video (take 100 ?feed))))" by simp
  have l: "length (rev (map to_new_video (take 100 ?feed))) = 100" using len by simp
  have n0: "rev (map to_new_video (take 100 ?feed)) ! 0 = to_new_video (?feed ! 99)"
    using len by (simp add: rev_nth)
  have n99: "rev (map to_new_video (take 100 ?feed)) ! 99 = to_new_video (?feed ! 0)"
    using len by (simp add: rev_nth)
  show ?thesis
    unfolding run using l n0 n99 by (simp add: result_length_def nth_result_def)
qed

text \<open>The theorem at the synthetic feed of 120 items in pages of 50, 50 and 20.\<close>

theorem listNewVideoIds_record_cap_witness:
  "length (concat feed120) = 120
   \<and> result_length (listNewVideoIds Some (serve feed120) 100 ''UU'' None None False) = Some 100
   \<and> nth_result (listNewVideoIds Some (serve feed120) 100 ''UU'' None None False) 0
       = Some (to_new_video (feed_item 99))
   \<and> nth_result (listNewVideoIds Some (serve feed120) 100 ''UU'' None None False) 99
       = Some (to_new_video (feed_item 0))"
proof -
  have len: "length (concat feed120) = 120" by (simp add: feed120_concat)
  have n: "concat feed120 ! 99 = feed_item 99" "concat feed120 ! 0 = feed_item 0"
    by (simp_all add: feed120_concat)
  note th = listNewVideoIds_record_cap[OF len feed120_ids, of Some "''UU''" False]
  from th have a: "result_length (listNewVideoIds Some (serve feed120) 100 ''UU'' None None False) = Some 100"
    by blast
  from th have "nth_result (listNewVideoIds Some (serve feed120) 100 ''UU'' None None False) 0
       = Some (to_new_video (concat feed120 ! 99))" by blast
  then have b: "nth_result (listNewVideoIds Some (serve feed120) 100 ''UU'' None None False) 0
       = Some (to_new_video (feed_item 99))" by (simp only: n)
  from th have "nth_result (listNewVideoIds Some (serve feed120) 100 ''UU'' None None False) 99
       = Some (to_new_video (concat feed120 ! 0))" by blast
  then have c: "nth_result (listNewVideoIds Some (serve feed120) 100 ''UU'' None None False) 99
       = Some (to_new_video (feed_item 0))" by (simp only: n)
  from len a b c show ?thesis by blast
qed

text \<open>
  Claim C4 as stated has the 100th item of the result equal to the 100th item of the
  feed. On the synthetic feed the 100th item of the result is the feed's first item
  (the id of one letter), which differs from the feed's 100th item (100 letters).
\<close>

theorem listNewVideoIds_record_cap_counterexample:
  "nth_result (listNewVideoIds Some (serve feed120) 100 ''UU'' None None False) 99
     = Some (to_new_video (feed_item 0))
   \<and> concat feed120 ! 99 = feed_item 99
   \<and> to_new_video (feed_item 0) \<noteq> to_new_video (feed_item 99)"
proof -
  have c: "cutoff_of Some None = Inr None" by (simp add: cutoff_of_def)
  have "fst (scan_items 100 None None False (concat feed120) [])
      = [] @ map to_new_video (take (nat 100 - length ([]::new_video list)) (concat feed120))"
    by (rule scan_items_no_stop[OF feed120_ids]) simp
  with listNewVideoIds_serve[OF c, of feed120 100 "''UU''" None False]
  have run: "listNewVideoIds Some (serve feed120) 100 ''UU'' None None False
           = Some (Inr (rev (map to_new_video (take 100 (concat feed120)))))"
    by (simp add: YT_FETCH_MAX_NEW_def)
  have n99: "rev (map to_new_video (take 100 (concat feed120))) ! 99 = to_new_video (feed_item 0)"
    by (simp add: rev_nth feed120_concat)
  have 1: "nth_result (listNewVideoIds Some (serve feed120) 100 ''UU'' None None False) 99
     = Some (to_new_video (feed_item 0))"
    unfolding run using n99 by (simp add: nth_result_def feed120_concat)
  have 2: "concat feed120 ! 99 = feed_item 99" by (simp add: feed120_concat)
  have 3: "to_new_video (feed_item 0) \<noteq> to_new_video (feed_item 99)"
  proof
    assume "to_new_video (feed_item 0) = to_new_video (feed_item 99)"
    then have "length (nv_id (to_new_video (feed_item 0))) = length (nv_id (to_new_video (feed_item 99)))"
      by simp
    then show False by (simp add: to_new_video_def feed_item_def)
  qed
  from 1 2 3 show ?thesis by blast
qed


section \<open>Properties of the detail fetcher\<close>

lemma YT_VIDEOS_BATCH_range: "1 \<le> YT_VIDEOS_BATCH raw \<and> YT_VIDEOS_BATCH raw \<le> 50"
  by (simp add: YT_VIDEOS_BATCH_def)

lemma slice_length:
  "i < length ids \<Longrightarrow> 0 < b \<Longrightarrow> b \<le> 50 \<Longrightarrow>
   slice ids i (i + b) \<noteq> [] \<and> length (slice ids i (i + b)) \<le> 50"
  by (simp add: slice_def)

lemma slice_drop: "slice ids i (i + b) @ drop (i + b) ids = drop i ids"
  by (simp add: slice_def) (metis add.commute append_take_drop_id drop_drop)

lemma fetch_loop_calls:
  "fetch_loop videos_list raw ids i calls rows = (calls', res) \<Longrightarrow>
   \<exists>cs. calls' = calls @ cs
      \<and> (\<forall>b\<in>set cs. b \<noteq> [] \<and> length b \<le> 50)
      \<and> prefix (concat cs) (drop i ids)
      \<and> (\<forall>rs. res = Inr rs \<longrightarrow> concat cs = drop i ids)"
proof (induction videos_list raw ids i calls rows rule: fetch_loop.induct)
  case (1 videos_list raw ids i calls rows)
  let ?B = "nat (YT_VIDEOS_BATCH raw)"
  let ?batch = "slice ids i (i + ?B)"
  have B: "0 < ?B" "?B \<le> 50" using YT_VIDEOS_BATCH_range[of raw] by auto
  show ?case
  proof (cases "i < length ids")
    case False
    with "1.prems" have "calls' = calls" "res = Inr rows" by (simp_all)
    with False show ?thesis by simp
  next
    case True
    note bl = slice_length[OF True B]
    have sd: "?batch @ drop (i + ?B) ids = drop i ids" by (rule slice_drop)
    show ?thesis
    proof (cases "videos_list ?batch")
      case (Inl e)
      with True "1.prems" have "calls' = calls @ [?batch]" "res = Inl e"
        by (simp_all add: Let_def)
      moreover have "prefix (concat [?batch]) (drop i ids)"
        using sd by (metis append_Nil2 concat.simps prefixI)
      ultimately show ?thesis using bl by auto
    next
      case (Inr items)
      with True "1.prems" have run: "fetch_loop videos_list raw ids (i + ?B) (calls @ [?batch])
            (rows @ map to_row items) = (calls', res)"
        by (simp add: Let_def)
      from "1.IH"[OF True refl Inr run] obtain cs where cs:
        "calls' = (calls @ [?batch]) @ cs" "\<forall>b\<in>set cs. b \<noteq> [] \<and> length b \<le> 50"
        "prefix (concat cs) (drop (i + ?B) ids)"
        "\<forall>rs. res = Inr rs \<longrightarrow> concat cs = drop (i + ?B) ids"
        by blast
      have "calls' = calls @ (?batch # cs)" using cs(1) by simp
      moreover have "\<forall>b\<in>set (?batch # cs). b \<noteq> [] \<and> length b \<le> 50" using cs(2) bl by simp
      moreover have "prefix (concat (?batch # cs)) (drop i ids)"
        using cs(3) sd by (metis concat.simps(2) same_prefix_prefix)
      moreover have "\<forall>rs. res = Inr rs \<longrightarrow> concat (?batch # cs) = drop i ids"
        using cs(4) sd by simp
      ultimately show ?thesis by blast
    qed
  qed
qed

lemma fetch_loop_never_fails:
  "\<forall>b. \<exists>vs. videos_list b = Inr vs \<Longrightarrow>
   \<exists>rs. snd (fetch_loop videos_list raw ids i calls rows) = Inr rs"
proof (induction videos_list raw ids i calls rows rule: fetch_loop.induct)
  case (1 videos_list raw ids i calls rows)
  let ?B = "nat (YT_VIDEOS_BATCH raw)"
  let ?batch = "slice ids i (i + ?B)"
  show ?case
  proof (cases "i < length ids")
    case False
    then have "fetch_loop videos_list raw ids i calls rows = (calls, Inr rows)"
      by (subst fetch_loop.simps) (simp del: fetch_loop.simps)
    then show ?thesis by simp
  next
    case True
    from "1.prems" obtain vs where vs: "videos_list ?batch = Inr vs" by blast
    from True vs have "fetch_loop videos_list raw ids i calls rows =
        fetch_loop videos_list raw ids (i + ?B) (calls @ [?batch]) (rows @ map to_row vs)"
      by (subst fetch_loop.simps) (simp del: fetch_loop.simps add: Let_def)
    with "1.IH"[OF True refl vs "1.prems"] show ?thesis by simp
  qed
qed

text \<open>
  The outcome of the loop depends on the upstream only through its answers to
  non-empty batches of at most 50 ids.
\<close>

lemma fetch_loop_ext:
  "(\<forall>b. b \<noteq> [] \<and> length b \<le> 50 \<longrightarrow> videos_list b = videos_list' b) \<Longrightarrow>
   fetch_loop videos_list raw ids i calls rows = fetch_loop videos_list' raw ids i calls rows"
proof (induction videos_list raw ids i calls rows rule: fetch_loop.induct)
  case (1 videos_list raw ids i calls rows)
  let ?B = "nat (YT_VIDEOS_BATCH raw)"
  let ?batch = "slice ids i (i + ?B)"
  have B: "0 < ?B" "?B \<le> 50" using YT_VIDEOS_BATCH_range[of raw] by auto
  show ?case
  proof (cases "i < length ids")
    case False
    then have "fetch_loop videos_list raw ids i calls rows = (calls, Inr rows)"
      "fetch_loop videos_list' raw ids i calls rows = (calls, Inr rows)"
      by (subst fetch_loop.simps, simp del: fetch_loop.simps)+
    then show ?thesis by simp
  next
    case True
    from slice_length[OF True B] "1.prems" have eq: "videos_list ?batch = videos_list' ?batch"
      by blast
    have l: "fetch_loop videos_list raw ids i calls rows =
        (case videos_list ?batch of
           Inl e \<Rightarrow> (calls @ [?batch], Inl e)
         | Inr items \<Rightarrow> fetch_loop videos_list raw ids (i + ?B) (calls @ [?batch])
                          (rows @ map to_row items))"
      using True by (subst fetch_loop.simps) (simp del: fetch_loop.simps add: Let_def)
    have r: "fetch_loop videos_list' raw ids i calls rows =
        (case videos_list' ?batch of
           Inl e \<Rightarrow> (calls @ [?batch], Inl e)
         | Inr items \<Rightarrow> fetch_loop videos_list' raw ids (i + ?B) (calls @ [?batch])
                          (rows @ map to_row items))"
      using True by (subst fetch_loop.simps) (simp del: fetch_loop.simps add: Let_def)
    show ?thesis
    proof (cases "videos_list ?batch")
      case (Inl e)
      then have i': "videos_list' ?batch = Inl e" using eq by simp
      have "fetch_loop videos_list raw ids i calls rows = (calls @ [?batch], Inl e)"
        unfolding l Inl by simp
      moreover have "fetch_loop videos_list' raw ids i calls rows = (calls @ [?batch], Inl e)"
        unfolding r i' by simp
      ultimately show ?thesis by (simp only:)
    next
      case (Inr items)
      then have i': "videos_list' ?batch = Inr items" using eq by simp
      have "fetch_loop videos_list raw ids i calls rows =
          fetch_loop videos_list raw ids (i + ?B) (calls @ [?batch]) (rows @ map to_row items)"
        unfolding l Inr by (simp del: fetch_loop.simps)
      moreover have "fetch_loop videos_list' raw ids i calls rows =
          fetch_loop videos_list' raw ids (i + ?B) (calls @ [?batch]) (rows @ map to_row items)"
        unfolding r i' by (simp del: fetch_loop.simps)
      moreover note "1.IH"[OF True refl Inr "1.prems"]
      ultimately show ?thesis by (simp only:)
    qed
  qed
qed

text \<open>
  The rows returned are the upstream's answers to the batches sent, in order; a
  rejected call is the last one sent and its error is the outcome.
\<close>

lemma fetch_loop_rows:
  "fetch_loop videos_list raw ids i calls rows = (calls', res) \<Longrightarrow>
   \<exists>cs. calls' = calls @ cs
      \<and> (\<forall>rs. res = Inr rs \<longrightarrow>
            (\<forall>b\<in>set cs. \<exists>items. videos_list b = Inr items)
            \<and> rs = rows @ concat (map (\<lambda>b. rows_of_answer (videos_list b)) cs))
      \<and> (\<forall>e. res = Inl e \<longrightarrow>
            cs \<noteq> [] \<and> videos_list (last cs) = Inl e
            \<and> (\<forall>b\<in>set (butlast cs). \<exists>items. videos_list b = Inr items))"
proof (induction videos_list raw ids i calls rows rule: fetch_loop.induct)
  case (1 videos_list raw ids i calls rows)
  let ?B = "nat (YT_VIDEOS_BATCH raw)"
  let ?batch = "slice ids i (i + ?B)"
  show ?case
  proof (cases "i < length ids")
    case False
    with "1.prems" have "calls' = calls" "res = Inr rows" by simp_all
    then show ?thesis by simp
  next
    case True
    show ?thesis
    proof (cases "videos_list ?batch")
      case (Inl e)
      with True "1.prems" have "calls' = calls @ [?batch]" "res = Inl e"
        by (simp_all add: Let_def)
      with Inl show ?thesis by simp
    next
      case (Inr items)
      with True "1.prems" have run: "fetch_loop videos_list raw ids (i + ?B) (calls @ [?batch])
            (rows @ map to_row items) = (calls', res)"
        by (simp add: Let_def)
      from "1.IH"[OF True refl Inr run] obtain cs where cs:
        "calls' = (calls @ [?batch]) @ cs"
        "\<forall>rs. res = Inr rs \<longrightarrow>
            (\<forall>b\<in>set cs. \<exists>items. videos_list b = Inr items)
            \<and> rs = (rows @ map to_row items) @ concat (map (\<lambda>b. rows_of_answer (videos_list b)) cs)"
        "\<forall>e. res = Inl e \<longrightarrow>
            cs \<noteq> [] \<and> videos_list (last cs) = Inl e
            \<and> (\<forall>b\<in>set (butlast cs). \<exists>items. videos_list b = Inr items)"
        by blast
      have a: "calls' = calls @ (?batch # cs)" using cs(1) by simp
      have b: "\<forall>rs. res = Inr rs \<longrightarrow>
            (\<forall>b\<in>set (?batch # cs). \<exists>items. videos_list b = Inr items)
            \<and> rs = rows @ concat (map (\<lambda>b. rows_of_answer (videos_list b)) (?batch # cs))"
        using cs(2) Inr by (simp add: rows_of_answer_def)
      have c: "\<forall>e. res = Inl e \<longrightarrow>
            ?batch # cs \<noteq> [] \<and> videos_list (last (?batch # cs)) = Inl e
            \<and> (\<forall>b\<in>set (butlast (?batch # cs)). \<exists>items. videos_list b = Inr items)"
        using cs(3) Inr by auto
      from a b c show ?thesis by blast
    qed
  qed
qed

text \<open>
  Claim C6. Whatever the configured batch size \<open>RAW_BATCH\<close> (500, say) and whatever the
  upstream answers, every batch handed to \<^verbatim>\<open>videos.list\<close> has between 1 and 50 ids,
  and the batches, concatenated in call order, are an initial part of the input. When
  the function returns rows, the batches concatenate to exactly the input, so each id
  is sent once and in order, every batch was answered, and the rows are the answers
  to these batches, in order. When it fails, the error is the upstream's answer to
  the last batch sent and every earlier batch was answered. The upstream is consulted
  at such batches only: two upstreams that agree on every non-empty batch of at most
  50 ids give the same outcome.
\<close>

theorem fetchVideoDetails_batches:
  "(\<forall>b\<in>set (fst (fetchVideoDetails videos_list RAW_BATCH ids)). b \<noteq> [] \<and> length b \<le> 50)
   \<and> prefix (concat (fst (fetchVideoDetails videos_list RAW_BATCH ids))) ids
   \<and> (\<forall>rows. snd (fetchVideoDetails videos_list RAW_BATCH ids) = Inr rows \<longrightarrow>
         concat (fst (fetchVideoDetails videos_list RAW_BATCH ids)) = ids
         \<and> (\<forall>b\<in>set (fst (fetchVideoDetails videos_list RAW_BATCH ids)).
               \<exists>items. videos_list b = Inr items)
         \<and> rows = concat (map (\<lambda>b. rows_of_answer (videos_list b))
                            (fst (fetchVideoDetails videos_list RAW_BATCH ids))))
   \<and> (\<forall>e. snd (fetchVideoDetails videos_list RAW_BATCH ids) = Inl e \<longrightarrow>
         fst (fetchVideoDetails videos_list RAW_BATCH ids) \<noteq> []
         \<and> videos_list (last (fst (fetchVideoDetails videos_list RAW_BATCH ids))) = Inl e
         \<and> (\<forall>b\<in>set (butlast (fst (fetchVideoDetails videos_list RAW_BATCH ids))).
               \<exists>items. videos_list b = Inr items))
   \<and> ((\<forall>b. b \<noteq> [] \<and> length b \<le> 50 \<longrightarrow> videos_list b = videos_list' b) \<longrightarrow>
         fetchVideoDetails videos_list RAW_BATCH ids = fetchVideoDetails videos_list' RAW_BATCH ids)"
proof -
  obtain calls res where r: "fetchVideoDetails videos_list RAW_BATCH ids = (calls, res)"
    by (cases "fetchVideoDetails videos_list RAW_BATCH ids")
  then have fl: "fetch_loop videos_list RAW_BATCH ids 0 [] [] = (calls, res)"
    by (simp add: fetchVideoDetails_def)
  from fetch_loop_calls[OF fl] have
    1: "\<forall>b\<in>set calls. b \<noteq> [] \<and> length b \<le> 50" and 2: "prefix (concat calls) ids"
    and 3: "\<forall>rows. res = Inr rows \<longrightarrow> concat calls = ids" by auto
  from fetch_loop_rows[OF fl] have
    4: "\<forall>rs. res = Inr rs \<longrightarrow> (\<forall>b\<in>set calls. \<exists>items. videos_list b = Inr items)
            \<and> rs = concat (map (\<lambda>b. rows_of_answer (videos_list b)) calls)"
    and 5: "\<forall>e. res = Inl e \<longrightarrow> calls \<noteq> [] \<and> videos_list (last calls) = Inl e
            \<and> (\<forall>b\<in>set (butlast calls). \<exists>items. videos_list b = Inr items)" by auto
  have 6: "(\<forall>b. b \<noteq> [] \<and> length b \<le> 50 \<longrightarrow> videos_list b = videos_list' b) \<longrightarrow>
         fetchVideoDetails videos_list RAW_BATCH ids = fetchVideoDetails videos_list' RAW_BATCH ids"
    using fetch_loop_ext[of videos_list videos_list' RAW_BATCH ids 0 "[]" "[]"]
    by (simp add: fetchVideoDetails_def del: fetch_loop.simps)
  from 1 2 3 4 5 6 show ?thesis unfolding r fst_conv snd_conv by blast
qed

text \<open>The theorem at a configured batch size of 500 and 120 ids.\<close>

theorem fetchVideoDetails_batches_witness:
  "list_all (\<lambda>b. 0 < length b \<and> length b \<le> 50) (fst (fetchVideoDetails all_found 500 ids120))
   \<and> concat (fst (fetchVideoDetails all_found 500 ids120)) = ids120
   \<and> snd (fetchVideoDetails all_found 500 ids120) = Inr (map to_row (map plain_video ids120))"
proof -
  let ?calls = "fst (fetchVideoDetails all_found 500 ids120)"
  obtain rs where rs: "snd (fetchVideoDetails all_found 500 ids120) = Inr rs"
    using fetch_loop_never_fails[of all_found 500 ids120 0 "[]" "[]"]
    by (auto simp: fetchVideoDetails_def all_found_def)
  note th = fetchVideoDetails_batches[of all_found 500 ids120 all_found]
  from th have a: "\<forall>b\<in>set ?calls. b \<noteq> [] \<and> length b \<le> 50" by blast
  from th rs have b: "concat ?calls = ids120" by blast
  from th rs have "rs = concat (map (\<lambda>b. rows_of_answer (all_found b)) ?calls)" by blast
  also have "\<dots> = map to_row (map plain_video (concat ?calls))"
    by (simp add: rows_of_answer_def all_found_def map_concat comp_def)
  finally have c: "rs = map to_row (map plain_video ids120)" using b by simp
  from a b c rs show ?thesis by (simp add: list_all_iff)
qed

section \<open>Properties of the channel resolver\<close>

text \<open>
  Claim C8. An input of the canonical shape is returned as it is and no search is
  sent. Any other input sends exactly one search, for the input without a leading
  \<open>@\<close> and trimmed; the call fails with the upstream's error when the search is
  rejected, fails with \<open>cannot resolve channelId\<close> when the search yields no candidate
  id, and otherwise returns the candidate.
\<close>

theorem resolveToChannelId_short_circuit:
  "(is_channel_id s \<longrightarrow> resolveToChannelId search s = ([], Inr s))
   \<and> (\<not> is_channel_id s \<longrightarrow>
        fst (resolveToChannelId search s) = [trim (strip_at s)]
        \<and> (\<forall>e. search (trim (strip_at s)) = Inl e \<longrightarrow> snd (resolveToChannelId search s) = Inl e)
        \<and> (\<forall>items. search (trim (strip_at s)) = Inr items \<longrightarrow>
              snd (resolveToChannelId search s) =
                (case candidate_id items of
                   None \<Rightarrow> Inl (Error ''cannot resolve channelId'')
                 | Some i \<Rightarrow> Inr i)))"
  by (auto simp: resolveToChannelId_def Let_def split: sum.splits option.splits)

text \<open>The theorem at a canonical id, and at a handle with a search that finds nothing.\<close>

theorem resolveToChannelId_short_circuit_witness:
  "is_channel_id ''UC0123456789abcdefABCD_-''
   \<and> resolveToChannelId search_nothing ''UC0123456789abcdefABCD_-''
       = ([], Inr ''UC0123456789abcdefABCD_-'')
   \<and> \<not> is_channel_id ''@lge''
   \<and> resolveToChannelId search_nothing ''@lge'' = ([''lge''], Inl (Error ''cannot resolve channelId''))
   \<and> resolveToChannelId (search_finds ''UC0123456789abcdefABCD_-'') '' @lge ''
       = ([''@lge''], Inr ''UC0123456789abcdefABCD_-'')"
proof -
  have a: "is_channel_id ''UC0123456789abcdefABCD_-''" by code_simp
  have b: "\<not> is_channel_id ''@lge''" by code_simp
  have c: "trim (strip_at ''@lge'') = ''lge''" by code_simp
  have d: "search_nothing ''lge'' = Inr []" by (simp add: search_nothing_def)
  have e: "resolveToChannelId (search_finds ''UC0123456789abcdefABCD_-'') '' @lge ''
       = ([''@lge''], Inr ''UC0123456789abcdefABCD_-'')" by code_simp
  note th1 = resolveToChannelId_short_circuit[of "''UC0123456789abcdefABCD_-''" search_nothing]
  note th2 = resolveToChannelId_short_circuit[of "''@lge''" search_nothing]
  from th1 a have 1: "resolveToChannelId search_nothing ''UC0123456789abcdefABCD_-''
       = ([], Inr ''UC0123456789abcdefABCD_-'')" by blast
  from th2 b have f: "fst (resolveToChannelId search_nothing ''@lge'') = [trim (strip_at ''@lge'')]"
    by blast
  from th2 b c d have "snd (resolveToChannelId search_nothing ''@lge'') =
                (case candidate_id [] of
                   None \<Rightarrow> Inl (Error ''cannot resolve channelId'')
                 | Some i \<Rightarrow> Inr i)" by simp
  then have g: "snd (resolveToChannelId search_nothing ''@lge'') = Inl (Error ''cannot resolve channelId'')"
    by (simp add: candidate_id_def)
  from f g c have 2: "resolveToChannelId search_nothing ''@lge'' = ([''lge''], Inl (Error ''cannot resolve channelId''))"
    by (simp add: prod_eq_iff)
  from a b 1 2 e show ?thesis by blast
qed

section \<open>Properties of the insight text\<close>

text \<open>
  Claim C9. When the provider picked first succeeds, its text is returned and the other
  provider is not called. When it fails, the other provider is called, once, and the
  outcome of that call is the outcome of \<open>buildInsightText\<close>: its text when it
  succeeds, its error when it fails too.
\<close>

theorem buildInsightText_fallback:
  "(\<forall>text. call_provider cfg create generateContent (pickProvider cfg) sample days = Inr text
      \<longrightarrow> buildInsightText cfg create generateContent sample days = ([pickProvider cfg], Inr text))
   \<and> (\<forall>e. call_provider cfg create generateContent (pickProvider cfg) sample days = Inl e
      \<longrightarrow> buildInsightText cfg create generateContent sample days =
            ([pickProvider cfg, other_provider (pickProvider cfg)],
             call_provider cfg create generateContent (other_provider (pickProvider cfg)) sample days))"
  by (cases "pickProvider cfg")
     (auto simp: buildInsightText_def call_provider_def other_provider_def split: sum.splits)

text \<open>The theorem with both keys configured: fallback, double failure, and first success.\<close>

theorem buildInsightText_fallback_witness:
  "buildInsightText both_keys always_fails (answers ''report'') () 90 = ([OpenAI, Gemini], Inr ''report'')
   \<and> buildInsightText both_keys always_fails always_fails () 90 = ([OpenAI, Gemini], Inl (Error ''429''))
   \<and> buildInsightText both_keys (answers ''report'') always_fails () 90 = ([OpenAI], Inr ''report'')"
proof -
  have p: "pickProvider both_keys = OpenAI" by (simp add: pickProvider_def both_keys_def)
  have o: "other_provider OpenAI = Gemini" by (simp add: other_provider_def)
  have f: "call_provider both_keys always_fails g OpenAI () 90 = Inl (Error ''429'')" for g
    by (simp add: call_provider_def callOpenAI_def both_keys_def always_fails_def)
  have s: "call_provider both_keys always_fails (answers ''report'') Gemini () 90 = Inr ''report''"
    by (simp add: call_provider_def callGemini_def both_keys_def answers_def or_empty_def)
  have f2: "call_provider both_keys always_fails always_fails Gemini () 90 = Inl (Error ''429'')"
    by (simp add: call_provider_def callGemini_def both_keys_def always_fails_def)
  have s1: "call_provider both_keys (answers ''report'') always_fails OpenAI () 90 = Inr ''report''"
    by code_simp
  from buildInsightText_fallback[of both_keys always_fails "answers ''report''" "()" 90] p o f s
  have 1: "buildInsightText both_keys always_fails (answers ''report'') () 90 = ([OpenAI, Gemini], Inr ''report'')"
    by simp
  from buildInsightText_fallback[of both_keys always_fails always_fails "()" 90] p o f f2
  have 2: "buildInsightText both_keys always_fails always_fails () 90 = ([OpenAI, Gemini], Inl (Error ''429''))"
    by simp
  from buildInsightText_fallback[of both_keys "answers ''report''" always_fails "()" 90] p s1
  have 3: "buildInsightText both_keys (answers ''report'') always_fails () 90 = ([OpenAI], Inr ''report'')"
    by simp
  from 1 2 3 show ?thesis by blast
qed

section \<open>Properties of the metrics\<close>

lemma map_of_bump_day:
  "map_of (bump_day acc d') d =
     (if d = d' then Some (case map_of acc d of None \<Rightarrow> 1 | Some n \<Rightarrow> Suc n) else map_of acc d)"
  by (simp add: bump_day_def update_conv)

lemma distinct_bump_day: "distinct (map fst acc) \<Longrightarrow> distinct (map fst (bump_day acc d))"
  by (simp add: bump_day_def distinct_update)

text \<open>Counting days: each key appears once and carries the number of its rows.\<close>

lemma foldl_bump_day:
  "distinct (map fst acc) \<Longrightarrow> (\<forall>d. map_of acc d \<noteq> Some 0) \<Longrightarrow>
   distinct (map fst (foldl (\<lambda>byDay v. bump_day byDay (day_of v)) acc rows))
   \<and> (\<forall>d. map_of (foldl (\<lambda>byDay v. bump_day byDay (day_of v)) acc rows) d \<noteq> Some 0)
   \<and> (\<forall>d. day_count (foldl (\<lambda>byDay v. bump_day byDay (day_of v)) acc rows) d
           = day_count acc d + length (filter (\<lambda>v. day_of v = d) rows))"
proof (induction rows arbitrary: acc)
  case Nil
  then show ?case by simp
next
  case (Cons v rows)
  have d: "distinct (map fst (bump_day acc (day_of v)))"
    by (rule distinct_bump_day[OF Cons.prems(1)])
  have z: "\<forall>d. map_of (bump_day acc (day_of v)) d \<noteq> Some 0"
    using Cons.prems(2) by (auto simp: map_of_bump_day split: option.splits)
  have c: "day_count (bump_day acc (day_of v)) d
        = day_count acc d + (if day_of v = d then 1 else 0)" for d
    by (auto simp: day_count_def map_of_bump_day split: option.splits)
  from Cons.IH[OF d z] c show ?case by (auto simp: add.assoc)
qed

lemma count_days_correct:
  "distinct (map fst (count_days rows))
   \<and> (\<forall>d. map_of (count_days rows) d =
          (if filter (\<lambda>v. day_of v = d) rows = [] then None
           else Some (length (filter (\<lambda>v. day_of v = d) rows))))"
proof -
  have "distinct (map fst ([]::(string \<times> nat) list))" "\<forall>d. map_of ([]::(string \<times> nat) list) d \<noteq> Some 0"
    by simp_all
  from foldl_bump_day[OF this, of rows]
  have 1: "distinct (map fst (count_days rows))"
    and 2: "\<forall>d. map_of (count_days rows) d \<noteq> Some 0"
    and 3: "\<forall>d. day_count (count_days rows) d = length (filter (\<lambda>v. day_of v = d) rows)"
    by (simp_all add: count_days_def day_count_def)
  have "map_of (count_days rows) d =
          (if filter (\<lambda>v. day_of v = d) rows = [] then None
           else Some (length (filter (\<lambda>v. day_of v = d) rows)))" for d
    using 2[rule_format, of d] 3[rule_format, of d]
    by (cases "map_of (count_days rows) d") (auto simp: day_count_def)
  with 1 show ?thesis by blast
qed

text \<open>The ten rows with most views, ties in the order of \<open>rows\<close>.\<close>

lemma top10_correct:
  "length (top10 rows) = min 10 (length rows)
   \<and> sorted (map (\<lambda>v. - r_views v) (top10 rows))
   \<and> (\<exists>rest. mset rows = mset (top10 rows) + mset rest
          \<and> (\<forall>x\<in>set (top10 rows). \<forall>y\<in>set rest. r_views y \<le> r_views x))
   \<and> (\<forall>k. prefix (filter (\<lambda>v. r_views v = k) (top10 rows)) (filter (\<lambda>v. r_views v = k) rows))"
proof -
  let ?f = "\<lambda>v. - r_views v"
  let ?s = "sort_key ?f rows"
  have split: "?s = take 10 ?s @ drop 10 ?s" by simp
  have srt: "sorted (map ?f ?s)" by (rule sorted_sort_key)
  have 1: "length (top10 rows) = min 10 (length rows)" by (simp add: top10_def)
  have 2: "sorted (map ?f (top10 rows))"
    unfolding top10_def using srt by (simp add: take_map[symmetric] sorted_wrt_take)
  have "sorted (map ?f (take 10 ?s) @ map ?f (drop 10 ?s))"
    using srt by (metis split map_append)
  then have le: "\<forall>x\<in>set (take 10 ?s). \<forall>y\<in>set (drop 10 ?s). r_views y \<le> r_views x"
    by (auto simp: sorted_append)
  have "mset rows = mset (take 10 ?s) + mset (drop 10 ?s)"
    by (metis split mset_append mset_sort union_code)
  with le have 3: "\<exists>rest. mset rows = mset (top10 rows) + mset rest
          \<and> (\<forall>x\<in>set (top10 rows). \<forall>y\<in>set rest. r_views y \<le> r_views x)"
    unfolding top10_def by blast
  have 4: "prefix (filter (\<lambda>v. r_views v = k) (top10 rows)) (filter (\<lambda>v. r_views v = k) rows)" for k
  proof -
    have "filter (\<lambda>v. ?f v = - k) rows = filter (\<lambda>v. ?f v = - k) ?s"
      by (rule sort_key_stable[symmetric])
    then have "filter (\<lambda>v. r_views v = k) rows = filter (\<lambda>v. r_views v = k) ?s" by simp
    also have "\<dots> = filter (\<lambda>v. r_views v = k) (take 10 ?s) @ filter (\<lambda>v. r_views v = k) (drop 10 ?s)"
      by (metis split filter_append)
    finally show ?thesis by (simp add: top10_def)
  qed
  from 1 2 3 4 show ?thesis by blast
qed

text \<open>
  Claim C5, as the code has it. For a stored channel whose computation returns (no
  surviving row lacks \<open>publishedAt\<close>): \<open>rows\<close> holds exactly the stored rows whose
  instant is strictly after the cutoff \<^verbatim>\<open>dayjs().subtract(days, 'day').startOf('day')\<close>,
  the start in the server's time zone of the day \<open>days\<close> days before now; there is no
  upper bound, and no row is kept when that date is invalid. \<open>rows\<close> is sorted
  ascending by the \<^verbatim>\<open>localeCompare\<close> order of \<open>publishedAt\<close>, rows that compare equal
  keeping their stored order; \<open>byDay\<close> has one key for each date prefix (the first 10
  characters of the timestamp) occurring in \<open>rows\<close>, with the number of its rows;
  \<open>top\<close> has the \<open>min 10 (length rows)\<close> rows with most views in descending order,
  every row left out having at most the views of every row kept, and rows of equal
  views in their order in \<open>rows\<close>; \<open>total\<close> is the length of \<open>rows\<close>; a row that
  is not after the cutoff is in none of \<open>rows\<close> and \<open>top\<close> and is not counted.
\<close>

theorem makeMetricsFromChannel_correct:
  assumes ch: "channels channelId = Some ch"
    and run: "makeMetricsFromChannel collate day_start now parse channels channelId days = Inr m"
  shows "mset (m_rows m)
        = mset (filter (in_range (day_start days) now parse) (map snd (videos ch)))
    \<and> (\<forall>v\<in>set (m_rows m). \<exists>t c. published_ms now parse v = Some t
            \<and> day_start days = Some c \<and> c < t)
    \<and> (\<forall>v\<in>set (map snd (videos ch)). \<forall>t c. published_ms now parse v = Some t
            \<and> day_start days = Some c \<and> c < t \<longrightarrow> v \<in> set (m_rows m))
    \<and> (day_start days = None \<longrightarrow> m_rows m = [])
    \<and> sorted (map (\<lambda>v. collate (published_str v)) (m_rows m))
    \<and> (\<forall>k. filter (\<lambda>v. collate (published_str v) = k) (m_rows m)
            = filter (\<lambda>v. collate (published_str v) = k)
                (filter (in_range (day_start days) now parse) (map snd (videos ch))))
    \<and> distinct (map fst (m_byDay m))
    \<and> (\<forall>d. map_of (m_byDay m) d =
          (if filter (\<lambda>v. day_of v = d) (m_rows m) = [] then None
           else Some (length (filter (\<lambda>v. day_of v = d) (m_rows m)))))
    \<and> length (m_top m) = min 10 (length (m_rows m))
    \<and> sorted (map (\<lambda>v. - r_views v) (m_top m))
    \<and> (\<exists>rest. mset (m_rows m) = mset (m_top m) + mset rest
          \<and> (\<forall>x\<in>set (m_top m). \<forall>y\<in>set rest. r_views y \<le> r_views x))
    \<and> (\<forall>k. prefix (filter (\<lambda>v. r_views v = k) (m_top m)) (filter (\<lambda>v. r_views v = k) (m_rows m)))
    \<and> m_total m = length (m_rows m)
    \<and> (\<forall>v. \<not> in_range (day_start days) now parse v \<longrightarrow>
          v \<notin> set (m_rows m) \<and> v \<notin> set (m_top m)
          \<and> v \<notin> set (filter (\<lambda>w. day_of w = day_of v) (m_rows m)))"
proof -
  let ?kept = "filter (in_range (day_start days) now parse) (map snd (videos ch))"
  let ?key = "\<lambda>v. collate (published_str v)"
  let ?rows = "sort_key ?key ?kept"
  from ch run have m: "m = \<lparr>m_byDay = count_days ?rows, m_rows = ?rows, m_top = top10 ?rows,
                         m_total = length ?rows\<rparr>"
    by (simp add: makeMetricsFromChannel_def Let_def split: if_splits)
  have rows: "m_rows m = ?rows" and top: "m_top m = top10 ?rows"
    and byDay: "m_byDay m = count_days ?rows" and total: "m_total m = length ?rows"
    by (simp_all add: m)
  have 1: "mset (m_rows m) = mset ?kept" by (simp add: rows)
  have inr: "\<forall>v\<in>set (m_rows m). in_range (day_start days) now parse v" by (simp add: rows)
  have 2: "\<forall>v\<in>set (m_rows m). \<exists>t c. published_ms now parse v = Some t
            \<and> day_start days = Some c \<and> c < t"
  proof
    fix v assume "v \<in> set (m_rows m)"
    with inr have "isAfter (published_ms now parse v) (day_start days)"
      by (simp add: in_range_def)
    then show "\<exists>t c. published_ms now parse v = Some t \<and> day_start days = Some c \<and> c < t"
      by (cases "published_ms now parse v"; cases "day_start days") (simp_all add: isAfter_def)
  qed
  have r2b: "\<forall>v\<in>set (map snd (videos ch)). \<forall>t c. published_ms now parse v = Some t
            \<and> day_start days = Some c \<and> c < t \<longrightarrow> v \<in> set (m_rows m)"
    by (auto simp: rows in_range_def isAfter_def)
  have 3: "day_start days = None \<longrightarrow> m_rows m = []"
    by (simp add: rows in_range_def isAfter_def split: option.splits)
  have 4: "sorted (map ?key (m_rows m))" by (simp add: rows sorted_sort_key)
  have 5: "\<forall>k. filter (\<lambda>v. ?key v = k) (m_rows m) = filter (\<lambda>v. ?key v = k) ?kept"
    by (simp add: rows sort_key_stable)
  note 6 = count_days_correct[of ?rows, folded byDay rows]
  note 7 = top10_correct[of ?rows, folded top rows]
  have tsub: "set (m_top m) \<subseteq> set (m_rows m)"
    unfolding top rows top10_def by (metis set_take_subset set_sort subset_trans order_refl)
  have 8: "\<forall>v. \<not> in_range (day_start days) now parse v \<longrightarrow>
          v \<notin> set (m_rows m) \<and> v \<notin> set (m_top m)
          \<and> v \<notin> set (filter (\<lambda>w. day_of w = day_of v) (m_rows m))"
    using inr tsub by auto
  have t: "m_total m = length (m_rows m)" by (simp add: total rows)
  from 6 have r6a: "distinct (map fst (m_byDay m))" and r6b: "\<forall>d. map_of (m_byDay m) d =
          (if filter (\<lambda>v. day_of v = d) (m_rows m) = [] then None
           else Some (length (filter (\<lambda>v. day_of v = d) (m_rows m))))" by blast+
  from 7 have r7a: "length (m_top m) = min 10 (length (m_rows m))"
    and r7b: "sorted (map (\<lambda>v. - r_views v) (m_top m))"
    and r7c: "\<exists>rest. mset (m_rows m) = mset (m_top m) + mset rest
          \<and> (\<forall>x\<in>set (m_top m). \<forall>y\<in>set rest. r_views y \<le> r_views x)"
    and r7d: "\<forall>k. prefix (filter (\<lambda>v. r_views v = k) (m_top m)) (filter (\<lambda>v. r_views v = k) (m_rows m))"
    by blast+
  show ?thesis
    by (intro conjI) (fact 1 2 r2b 3 4 5 r6a r6b r7a r7b r7c r7d t 8)+
qed

text \<open>
  The theorem on a server in UTC, at a channel with rows on three days inside a window
  of two days and one row outside it. On a server in Seoul the same window of two days
  starts at 15:00 UTC of 8 January, and a row of 8 January 21:00 UTC is kept.
\<close>

theorem makeMetricsFromChannel_correct_witness:
  "makeMetricsFromChannel code_units (utc_day_start noon_jan11) noon_jan11 parse_jan70 (one_channel ''c'' demo_rows) ''c'' 2
     = Inr demo_metrics
   \<and> map fst (m_byDay demo_metrics) = [''1970-01-09'', ''1970-01-10'', ''1970-01-11'']
   \<and> map_of (m_byDay demo_metrics) ''1970-01-10'' = Some 2
   \<and> m_total demo_metrics = length (m_rows demo_metrics)
   \<and> sorted (map (\<lambda>v. code_units (published_str v)) (m_rows demo_metrics))
   \<and> row_at ''o'' ''1970-01-05T00:00:00Z'' 9 \<notin> set (m_rows demo_metrics)
   \<and> row_at ''o'' ''1970-01-05T00:00:00Z'' 9 \<notin> set (m_top demo_metrics)
   \<and> utc_day_start noon_jan11 2 = Some 691200000
   \<and> seoul_day_start noon_jan11 2 = Some 658800000
   \<and> makeMetricsFromChannel code_units (seoul_day_start noon_jan11) noon_jan11 parse_jan70
        (one_channel ''c'' [row_at ''s'' ''1970-01-08T21:00:00Z'' 2]) ''c'' 2
     = Inr \<lparr>m_byDay = [(''1970-01-08'', 1)], m_rows = [row_at ''s'' ''1970-01-08T21:00:00Z'' 2],
            m_top = [row_at ''s'' ''1970-01-08T21:00:00Z'' 2], m_total = 1\<rparr>"
proof -
  have ch: "one_channel ''c'' demo_rows ''c'' = Some (channel_of demo_rows)"
    by (simp add: one_channel_def)
  have run: "makeMetricsFromChannel code_units (utc_day_start noon_jan11) noon_jan11 parse_jan70 (one_channel ''c'' demo_rows) ''c'' 2
     = Inr demo_metrics" by code_simp
  note th = makeMetricsFromChannel_correct[OF ch run]
  have out: "\<not> in_range (utc_day_start noon_jan11 2) noon_jan11 parse_jan70 (row_at ''o'' ''1970-01-05T00:00:00Z'' 9)"
    by code_simp
  have keys: "map fst (m_byDay demo_metrics) = [''1970-01-09'', ''1970-01-10'', ''1970-01-11'']"
    by (simp add: demo_metrics_def)
  have n: "length (filter (\<lambda>v. day_of v = ''1970-01-10'') (m_rows demo_metrics)) = 2"
    by code_simp
  from th have "map_of (m_byDay demo_metrics) ''1970-01-10'' =
          (if filter (\<lambda>v. day_of v = ''1970-01-10'') (m_rows demo_metrics) = [] then None
           else Some (length (filter (\<lambda>v. day_of v = ''1970-01-10'') (m_rows demo_metrics))))"
    by blast
  with n have a: "map_of (m_byDay demo_metrics) ''1970-01-10'' = Some 2"
    by (metis length_0_conv zero_neq_numeral)
  from th have b: "m_total demo_metrics = length (m_rows demo_metrics)" by blast
  from th have c: "sorted (map (\<lambda>v. code_units (published_str v)) (m_rows demo_metrics))" by blast
  from th out have d: "row_at ''o'' ''1970-01-05T00:00:00Z'' 9 \<notin> set (m_rows demo_metrics)"
    and e: "row_at ''o'' ''1970-01-05T00:00:00Z'' 9 \<notin> set (m_top demo_metrics)" by blast+
  have u: "utc_day_start noon_jan11 2 = Some 691200000" by code_simp
  have k: "seoul_day_start noon_jan11 2 = Some 658800000" by code_simp
  have s: "makeMetricsFromChannel code_units (seoul_day_start noon_jan11) noon_jan11 parse_jan70
        (one_channel ''c'' [row_at ''s'' ''1970-01-08T21:00:00Z'' 2]) ''c'' 2
     = Inr \<lparr>m_byDay = [(''1970-01-08'', 1)], m_rows = [row_at ''s'' ''1970-01-08T21:00:00Z'' 2],
            m_top = [row_at ''s'' ''1970-01-08T21:00:00Z'' 2], m_total = 1\<rparr>" by code_simp
  from run keys a b c d e u k s show ?thesis by blast
qed

text \<open>
  Claim C5 as stated has the rows filtered to \<open>[now - days, now)\<close>. On a server in
  UTC with the clock at noon of 11 January and \<open>days = 1\<close>, a row of 10 January 06:00
  (earlier than \<open>now - days\<close>) and a row of 12 January (later than \<open>now\<close>) are both
  kept.
\<close>

theorem makeMetricsFromChannel_window_counterexample:
  "makeMetricsFromChannel code_units (utc_day_start noon_jan11) noon_jan11 parse_jan70
      (one_channel ''c'' [row_at ''a'' ''1970-01-10T06:00:00Z'' 5,
                          row_at ''b'' ''1970-01-12T00:00:00Z'' 7]) ''c'' 1
     = Inr \<lparr>m_byDay = [(''1970-01-10'', 1), (''1970-01-12'', 1)],
            m_rows = [row_at ''a'' ''1970-01-10T06:00:00Z'' 5, row_at ''b'' ''1970-01-12T00:00:00Z'' 7],
            m_top = [row_at ''b'' ''1970-01-12T00:00:00Z'' 7, row_at ''a'' ''1970-01-10T06:00:00Z'' 5],
            m_total = 2\<rparr>
   \<and> published_ms noon_jan11 parse_jan70 (row_at ''a'' ''1970-01-10T06:00:00Z'' 5) = Some 799200000
   \<and> \<not> spec_window noon_jan11 1 799200000
   \<and> published_ms noon_jan11 parse_jan70 (row_at ''b'' ''1970-01-12T00:00:00Z'' 7) = Some 950400000
   \<and> \<not> spec_window noon_jan11 1 950400000"
  by code_simp

text \<open>
  Claim C10. For a channel id with no entry in the store, whatever \<open>days\<close> is,
  \<open>makeMetricsFromChannel\<close> returns the empty result and no error; and the route that
  calls it on a stored document answers with the empty result and leaves the store
  (document and write count) as it was.
\<close>

theorem makeMetricsFromChannel_unknown_channel:
  assumes "channels channelId = None"
  shows "makeMetricsFromChannel collate day_start now parse channels channelId days
           = Inr empty_metrics
     \<and> (channelId \<noteq> [] \<and> disk st = Stored channels \<longrightarrow>
          metrics_by_handle collate day_start cfg up (Some channelId) handle days st
            = (Reply (metrics_json empty_metrics), st))"
  using assms
  by (auto simp: makeMetricsFromChannel_def metrics_by_handle_def channel_of_request_def
        loadDB_def truthy_def)

text \<open>The theorem at a store with one channel and a request for another.\<close>

theorem makeMetricsFromChannel_unknown_channel_witness:
  "makeMetricsFromChannel code_units (utc_day_start noon_jan11) noon_jan11 parse_jan70
       (one_channel ''c'' demo_rows) ''zz'' (2::int)
     = Inr empty_metrics
   \<and> metrics_by_handle code_units (utc_day_start noon_jan11) demo_config demo_upstream (Some ''zz'') None 2
        \<lparr>disk = Stored (one_channel ''c'' demo_rows), writes = 3\<rparr>
     = (Reply (metrics_json empty_metrics), \<lparr>disk = Stored (one_channel ''c'' demo_rows), writes = 3\<rparr>)"
proof -
  have a: "one_channel ''c'' demo_rows ''zz'' = None" by (simp add: one_channel_def)
  from makeMetricsFromChannel_unknown_channel[of "one_channel ''c'' demo_rows" "''zz''"
      code_units "utc_day_start noon_jan11" noon_jan11 parse_jan70 2
      "\<lparr>disk = Stored (one_channel ''c'' demo_rows), writes = 3\<rparr>"
      demo_config demo_upstream None, OF a]
  show ?thesis by simp
qed

section \<open>Properties of ingestion\<close>

text \<open>What a scan adds to the buffer has non-empty ids.\<close>

lemma scan_items_grows:
  "scan_items cap c ls bf items out = (out', stop) \<Longrightarrow>
   \<exists>ys. out' = out @ ys \<and> (\<forall>v\<in>set ys. nv_id v \<noteq> [])"
proof (induction items arbitrary: out)
  case Nil
  then show ?case by simp
next
  case (Cons it items)
  show ?case
  proof (cases "videoId it")
    case None
    with Cons show ?thesis by simp
  next
    case (Some i)
    show ?thesis
    proof (cases "i = []")
      case True
      with Some Cons show ?thesis by simp
    next
      case ne: False
      let ?v = "\<lparr>nv_id = i, nv_publishedAt = videoPublishedAt it\<rparr>"
      show ?thesis
      proof (cases "(\<not> bf \<and> truthy ls \<and> Some i = ls) \<or> before_cutoff c (videoPublishedAt it)")
        case True
        with Some ne Cons.prems have "out' = out" by (auto split: if_splits)
        then show ?thesis by simp
      next
        case F: False
        show ?thesis
        proof (cases "int (length (out @ [?v])) \<ge> cap")
          case True
          with F Some ne Cons.prems have "out' = out @ [?v]" by (auto simp: Let_def)
          with ne show ?thesis by simp
        next
          case False
          with F Some ne Cons.prems have "scan_items cap c ls bf items (out @ [?v]) = (out', stop)"
            by (auto simp: Let_def)
          from Cons.IH[OF this] obtain ys where "out' = (out @ [?v]) @ ys" "\<forall>v\<in>set ys. nv_id v \<noteq> []"
            by blast
          with ne have "out' = out @ (?v # ys) \<and> (\<forall>v\<in>set (?v # ys). nv_id v \<noteq> [])" by simp
          then show ?thesis by blast
        qed
      qed
    qed
  qed
qed

text \<open>
  Scanning the same page again with the cursor at the first item pushed stops at once;
  a page that pushed nothing and did not stop does so whatever the cursor and cutoff.
\<close>

lemma scan_items_cursor_first:
  "scan_items cap c ls False items [] = (out', stop) \<Longrightarrow> out' \<noteq> [] \<Longrightarrow>
   scan_items cap c' (Some (nv_id (hd out'))) False items [] = ([], True)"
proof (induction items)
  case Nil
  then show ?case by simp
next
  case (Cons it items)
  show ?case
  proof (cases "videoId it")
    case None
    with Cons show ?thesis by simp
  next
    case (Some i)
    show ?thesis
    proof (cases "i = []")
      case True
      with Some Cons show ?thesis by simp
    next
      case ne: False
      let ?v = "\<lparr>nv_id = i, nv_publishedAt = videoPublishedAt it\<rparr>"
      have "(\<not> (truthy ls \<and> Some i = ls)) \<and> \<not> before_cutoff c (videoPublishedAt it)"
        using Cons.prems Some ne by (auto split: if_splits)
      then have "out' = [?v] \<or> scan_items cap c ls False items [?v] = (out', stop)"
        using Cons.prems Some ne by (auto simp: Let_def split: if_splits)
      then have "hd out' = ?v"
      proof
        assume "out' = [?v]" then show ?thesis by simp
      next
        assume "scan_items cap c ls False items [?v] = (out', stop)"
        from scan_items_grows[OF this] show ?thesis by auto
      qed
      with Some ne show ?thesis by (simp add: truthy_def)
    qed
  qed
qed

lemma scan_items_all_skipped:
  "scan_items cap c ls bf items [] = ([], False) \<Longrightarrow>
   scan_items cap' c' ls' bf' items [] = ([], False)"
proof (induction items)
  case Nil
  then show ?case by simp
next
  case (Cons it items)
  show ?case
  proof (cases "videoId it")
    case None
    with Cons show ?thesis by simp
  next
    case (Some i)
    show ?thesis
    proof (cases "i = []")
      case True
      with Some Cons show ?thesis by simp
    next
      case ne: False
      let ?v = "\<lparr>nv_id = i, nv_publishedAt = videoPublishedAt it\<rparr>"
      from Cons.prems Some ne have "scan_items cap c ls bf items [?v] = ([], False)"
        by (auto simp: Let_def split: if_splits)
      from scan_items_grows[OF this] show ?thesis by simp
    qed
  qed
qed

text \<open>
  An incremental walk that returned \<open>res\<close> returned ids that are non-empty; the last
  element of \<open>res\<close> is the first element pushed; and walking the same upstream again
  with that element as cursor returns the empty list.
\<close>

lemma walk_pages_rewalk:
  assumes "walk_pages list cap c ls False tok out = Some (Inr res)"
    and "\<forall>v\<in>set out. nv_id v \<noteq> []"
  shows "(\<forall>v\<in>set res. nv_id v \<noteq> [])
     \<and> (out \<noteq> [] \<longrightarrow> res \<noteq> [] \<and> last res = hd out)
     \<and> (out = [] \<and> res \<noteq> [] \<longrightarrow>
          walk_pages list cap c' (Some (nv_id (last res))) False tok [] = Some (Inr []))"
proof -
  define P where "P = (\<lambda>list cap (c::string option) (ls::string option) bf tok (out::new_video list)
        (y::error + new_video list).
      bf = False \<longrightarrow> (\<forall>v\<in>set out. nv_id v \<noteq> []) \<longrightarrow>
      (\<forall>res. y = Inr res \<longrightarrow>
        (\<forall>v\<in>set res. nv_id v \<noteq> [])
        \<and> (out \<noteq> [] \<longrightarrow> res \<noteq> [] \<and> last res = hd out)
        \<and> (out = [] \<and> res \<noteq> [] \<longrightarrow>
            walk_pages list cap c' (Some (nv_id (last res))) False tok [] = Some (Inr []))))"
  have "P list cap c ls False tok out (Inr res)"
  proof (rule walk_pages.raw_induct[where P = P, OF _ assms(1)])
    fix f list cap c ls bf tok out y
    assume IH: "\<And>list cap c ls bf tok out y. f list cap c ls bf tok out = Some y
                  \<Longrightarrow> P list cap c ls bf tok out y"
      and body: "(case list tok of Inl e \<Rightarrow> Some (Inl e)
          | Inr r \<Rightarrow>
              case scan_items cap c ls bf (pl_items r) out of
              (out', stop) \<Rightarrow>
                if stop then Some (Inr (rev out'))
                else case next_token r of None \<Rightarrow> Some (Inr (rev out'))
                     | Some t \<Rightarrow> f list cap c ls bf (Some t) out') = Some y"
    show "P list cap c ls bf tok out y"
      unfolding P_def
    proof (intro impI allI)
      fix res
      assume bf: "bf = False" and ids: "\<forall>v\<in>set out. nv_id v \<noteq> []" and y: "y = Inr res"
      from body y obtain r where r: "list tok = Inr r" by (auto split: sum.splits)
      obtain out' stop where sc: "scan_items cap c ls bf (pl_items r) out = (out', stop)"
        by (cases "scan_items cap c ls bf (pl_items r) out")
      from scan_items_grows[OF sc] obtain ys where ys: "out' = out @ ys" "\<forall>v\<in>set ys. nv_id v \<noteq> []"
        by blast
      with ids have ids': "\<forall>v\<in>set out'. nv_id v \<noteq> []" by auto
      have hd': "out \<noteq> [] \<Longrightarrow> hd out' = hd out" using ys by simp
      let ?new = "\<lambda>res. walk_pages list cap c' (Some (nv_id (last res))) False tok []"
      have new_unfold: "walk_pages list cap c' x False tok [] =
          (case scan_items cap c' x False (pl_items r) [] of
              (out'', stop') \<Rightarrow>
                if stop' then Some (Inr (rev out''))
                else case next_token r of None \<Rightarrow> Some (Inr (rev out''))
                     | Some t \<Rightarrow> walk_pages list cap c' x False (Some t) out'')" for x
        by (subst walk_pages.simps) (simp add: r)
      consider (stop) "stop \<or> next_token r = None" | (go) t where "\<not> stop" "next_token r = Some t"
        by (cases "next_token r") auto
      then show "(\<forall>v\<in>set res. nv_id v \<noteq> [])
        \<and> (out \<noteq> [] \<longrightarrow> res \<noteq> [] \<and> last res = hd out)
        \<and> (out = [] \<and> res \<noteq> [] \<longrightarrow> ?new res = Some (Inr []))"
      proof cases
        case stop
        with body r sc y have res: "res = rev out'" by (auto split: if_splits)
        have a: "\<forall>v\<in>set res. nv_id v \<noteq> []" using res ids' by simp
        have b: "out \<noteq> [] \<longrightarrow> res \<noteq> [] \<and> last res = hd out"
          using res ys hd' by (auto simp: last_rev)
        have c: "out = [] \<and> res \<noteq> [] \<longrightarrow> ?new res = Some (Inr [])"
        proof
          assume h: "out = [] \<and> res \<noteq> []"
          then have ne: "out' \<noteq> []" using res by simp
          have l: "last res = hd out'" using res ne by (simp add: last_rev)
          from sc h bf have "scan_items cap c ls False (pl_items r) [] = (out', stop)" by simp
          from scan_items_cursor_first[OF this ne, of c'] l
          show "?new res = Some (Inr [])" by (simp add: new_unfold)
        qed
        from a b c show ?thesis by blast
      next
        case go
        with body r sc y have fr: "f list cap c ls bf (Some t) out' = Some (Inr res)" by simp
        from IH[OF fr] bf ids' have
          a: "\<forall>v\<in>set res. nv_id v \<noteq> []"
          and b': "out' \<noteq> [] \<longrightarrow> res \<noteq> [] \<and> last res = hd out'"
          and c': "out' = [] \<and> res \<noteq> [] \<longrightarrow>
                walk_pages list cap c' (Some (nv_id (last res))) False (Some t) [] = Some (Inr [])"
          unfolding P_def by blast+
        have b: "out \<noteq> [] \<longrightarrow> res \<noteq> [] \<and> last res = hd out"
          using b' ys hd' by auto
        have c: "out = [] \<and> res \<noteq> [] \<longrightarrow> ?new res = Some (Inr [])"
        proof
          assume h: "out = [] \<and> res \<noteq> []"
          from sc h bf have sc0: "scan_items cap c ls False (pl_items r) [] = (out', stop)" by simp
          show "?new res = Some (Inr [])"
          proof (cases "out' = []")
            case True
            with sc0 go have "scan_items cap c ls False (pl_items r) [] = ([], False)" by simp
            from scan_items_all_skipped[OF this, of cap c' "Some (nv_id (last res))" False] c' True h go
            show ?thesis by (simp add: new_unfold)
          next
            case False
            with b' have l: "last res = hd out'" by simp
            from scan_items_cursor_first[OF sc0 False, of c'] l
            show ?thesis by (simp add: new_unfold)
          qed
        qed
        from a b c show ?thesis by blast
      qed
    qed
  qed
  with assms(2) show ?thesis unfolding P_def by blast
qed

text \<open>The store and the cursor across \<open>loadDB\<close> and \<open>saveDB\<close>.\<close>

lemma loadDB_cursor:
  "loadDB st = (d, st1) \<Longrightarrow>
   cursor_of st1 c = cursor_of st c
   \<and> cursor_of st c = (lastSeenVideoId (channel_or_new d c), lastPublishedAt (channel_or_new d c))"
  by (cases "disk st")
     (auto simp: loadDB_def cursor_of_def channel_or_new_def new_channel_def empty_db_def
           split: option.splits)

lemma loadDB_again: "loadDB st = (d, st1) \<Longrightarrow> loadDB st1 = (d, st1)"
  by (cases "disk st") (auto simp: loadDB_def)

lemma loadDB_saveDB: "loadDB (saveDB d st) = (d, saveDB d st)"
  by (simp add: loadDB_def saveDB_def)

lemma cursor_saveDB:
  "cursor_of (saveDB (d(k \<mapsto> ch)) st) c =
     (if c = k then (lastSeenVideoId ch, lastPublishedAt ch)
      else (lastSeenVideoId (channel_or_new d c), lastPublishedAt (channel_or_new d c)))"
  by (auto simp: cursor_of_def saveDB_def channel_or_new_def new_channel_def split: option.splits)

lemma fill_meta_cursor:
  "lastSeenVideoId (fill_meta cfg up k ch) = lastSeenVideoId ch
   \<and> lastPublishedAt (fill_meta cfg up k ch) = lastPublishedAt ch"
  by (auto simp: fill_meta_def split: option.splits sum.splits)

text \<open>
  Claim C2. A run of the ingest route in backfill mode that returns leaves the cursor
  (\<open>lastSeenVideoId\<close>, \<open>lastPublishedAt\<close>) of every channel as it was, whatever it
  merges into \<open>videos\<close>. The only other route that saves the store, the resolve
  route, leaves every cursor as it was too; so the cursor changes in incremental
  ingestion only.
\<close>

theorem ingest_backfill_keeps_cursor:
  "(b_backfill body \<and> ingest cfg up body st = Some (r, st') \<longrightarrow>
      (\<forall>c. cursor_of st' c = cursor_of st c))
   \<and> (\<forall>c. cursor_of (snd (resolve_route cfg up handle st)) c = cursor_of st c)"
proof -
  have A: "cursor_of st' c = cursor_of st c"
    if bf: "b_backfill body" and run: "ingest cfg up body st = Some (r, st')" for c
  proof -
    obtain d st1 where ld: "loadDB st = (d, st1)" by (cases "loadDB st")
    note lc = loadDB_cursor[OF ld, of c]
    show ?thesis
    proof (cases "st' = st1")
      case True
      with lc show ?thesis by simp
    next
      case False
      with run ld bf obtain k details ch where
        st': "st' = saveDB (d(k \<mapsto> fill_meta cfg up k
                  ((channel_or_new d k)\<lparr>videos := merge_videos details (videos (channel_or_new d k))\<rparr>))) st1"
        by (auto simp: ingest_def Let_def split: sum.splits option.splits if_splits)
      show ?thesis
        unfolding st' using lc by (simp add: cursor_saveDB fill_meta_cursor)
    qed
  qed
  have B: "cursor_of (snd (resolve_route cfg up handle st)) c = cursor_of st c" for c
  proof (cases "snd (resolveToChannelId (up_search up) handle)")
    case (Inl e)
    then show ?thesis by (simp add: resolve_route_def)
  next
    case (Inr k)
    obtain d st1 where ld: "loadDB st = (d, st1)" by (cases "loadDB st")
    note lc = loadDB_cursor[OF ld, of c]
    from Inr ld lc show ?thesis
      by (auto simp: resolve_route_def cursor_saveDB split: sum.splits option.splits)
  qed
  from A B show ?thesis by blast
qed

text \<open>
  The theorem at a store whose channel has its cursor at \<open>ex_x\<close>: the backfill run
  adds the four videos of the feed and the cursor stays.
\<close>

theorem ingest_backfill_keeps_cursor_witness:
  "map_option fst (ingest demo_config demo_upstream (demo_body True) store_at_x)
     = Some (ingest_ok 4 demo_id True)
   \<and> cursor_of (snd (the (ingest demo_config demo_upstream (demo_body True) store_at_x))) demo_id
     = (Some ''x'', Some ''2023-12-01T00:00:00Z'')"
proof -
  let ?X = "ingest demo_config demo_upstream (demo_body True) store_at_x"
  have e: "map_option fst ?X = Some (ingest_ok 4 demo_id True)" by code_simp
  then obtain r st' where X: "?X = Some (r, st')" by (cases ?X) auto
  have bf: "b_backfill (demo_body True)" by (simp add: demo_body_def)
  have c: "cursor_of store_at_x demo_id = (Some ''x'', Some ''2023-12-01T00:00:00Z'')"
    by code_simp
  from ingest_backfill_keeps_cursor[of "demo_body True" demo_config demo_upstream store_at_x r st'] bf X
  have "cursor_of st' demo_id = cursor_of store_at_x demo_id" by blast
  with X e c show ?thesis by simp
qed

lemma advance_cursor_last:
  "newList \<noteq> [] \<Longrightarrow> nv_id (last newList) \<noteq> [] \<Longrightarrow>
   lastSeenVideoId (advance_cursor newList ch) = Some (nv_id (last newList))"
  by (cases newList rule: rev_cases) (auto simp: advance_cursor_def or_else_def truthy_def)

text \<open>
  Claim C3. When an incremental ingest answered \<open>ok\<close> and left the store \<open>st1\<close>,
  the same request against the same upstream on \<open>st1\<close> returns, answers
  \<open>added: 0\<close>, and leaves the store exactly \<open>st1\<close>: the cursor is unchanged and the
  write count has not moved.
\<close>

theorem ingest_idempotent:
  assumes inc: "\<not> b_backfill body"
    and run: "ingest cfg up body st = Some (ingest_ok added channelId False, st1)"
  shows "ingest cfg up body st1 = Some (ingest_ok 0 channelId False, st1)"
proof -
  obtain d s where ld: "loadDB st = (d, s)" by (cases "loadDB st")
  from run ld obtain k where k: "channel_of_request up (b_channelId body) (b_handle body) = Inr k"
    by (auto simp: ingest_def ingest_error_def ingest_ok_def split: sum.splits)
  from run ld k obtain u where u: "getUploadsPlaylistId up k = Inr u"
    by (auto simp: ingest_def ingest_error_def ingest_ok_def split: sum.splits)
  let ?ch = "channel_or_new d k"
  let ?walk = "\<lambda>cur. listNewVideoIds (cfg_toISOString cfg) (up_playlistItems up)
                 (cfg_RAW_FETCH_MAX cfg) u (b_since body) cur False"
  from run ld k u inc obtain newList where w: "?walk (lastSeenVideoId ?ch) = Some (Inr newList)"
    by (auto simp: ingest_def ingest_error_def ingest_ok_def Let_def split: sum.splits option.splits)
  from run ld k u inc w have kc: "k = channelId"
    by (auto simp: ingest_def ingest_error_def ingest_ok_def Let_def split: sum.splits if_splits)
  show ?thesis
  proof (cases "newList = []")
    case True
    with run ld k u inc w have "st1 = s" by (simp add: ingest_def Let_def)
    with loadDB_again[OF ld] have "loadDB st1 = (d, st1)" by simp
    with k u inc w True kc show ?thesis by (simp add: ingest_def Let_def)
  next
    case False
    from run ld k u inc w False obtain details where
      det: "snd (fetchVideoDetails (up_videos up) (cfg_RAW_BATCH cfg) (map nv_id newList)) = Inr details"
      by (auto simp: ingest_def ingest_error_def ingest_ok_def Let_def split: sum.splits)
    let ?ch3 = "fill_meta cfg up k (advance_cursor newList
                  (?ch\<lparr>videos := merge_videos details (videos ?ch)\<rparr>))"
    from run ld k u inc w False det have st1: "st1 = saveDB (d(k \<mapsto> ?ch3)) s"
      by (simp add: ingest_def Let_def)
    have ld1: "loadDB st1 = (d(k \<mapsto> ?ch3), st1)" unfolding st1 by (rule loadDB_saveDB)
    from w obtain c where c: "cutoff_of (cfg_toISOString cfg) (b_since body) = Inr c"
      and wp: "walk_pages (up_playlistItems up u) (YT_FETCH_MAX_NEW (cfg_RAW_FETCH_MAX cfg)) c
                 (lastSeenVideoId ?ch) False None [] = Some (Inr newList)"
      by (auto simp: listNewVideoIds_def split: sum.splits)
    have e: "\<forall>v\<in>set ([]::new_video list). nv_id v \<noteq> []" by simp
    from walk_pages_rewalk[OF wp e, of c] False
    have ids: "\<forall>v\<in>set newList. nv_id v \<noteq> []"
      and again: "walk_pages (up_playlistItems up u) (YT_FETCH_MAX_NEW (cfg_RAW_FETCH_MAX cfg)) c
                 (Some (nv_id (last newList))) False None [] = Some (Inr [])"
      by blast+
    from ids False have "nv_id (last newList) \<noteq> []" by simp
    from advance_cursor_last[OF False this]
    have cur: "lastSeenVideoId ?ch3 = Some (nv_id (last newList))"
      by (simp add: fill_meta_cursor)
    from again c have w2: "?walk (Some (nv_id (last newList))) = Some (Inr [])"
      by (simp add: listNewVideoIds_def)
    have con: "channel_or_new (d(k \<mapsto> ?ch3)) k = ?ch3" by (simp add: channel_or_new_def)
    from ld1 k u inc w2 cur con kc show ?thesis
      by (simp add: ingest_def Let_def)
  qed
qed

text \<open>The theorem from a store that does not exist yet: 4 added, then 0.\<close>

theorem ingest_idempotent_witness:
  "map_option fst (ingest demo_config demo_upstream (demo_body False) no_store)
     = Some (ingest_ok 4 demo_id False)
   \<and> ingest demo_config demo_upstream (demo_body False)
        (snd (the (ingest demo_config demo_upstream (demo_body False) no_store)))
     = Some (ingest_ok 0 demo_id False,
             snd (the (ingest demo_config demo_upstream (demo_body False) no_store)))"
proof -
  let ?X = "ingest demo_config demo_upstream (demo_body False) no_store"
  have e: "map_option fst ?X = Some (ingest_ok 4 demo_id False)" by code_simp
  then obtain st1 where X: "?X = Some (ingest_ok 4 demo_id False, st1)" by (cases ?X) auto
  have inc: "\<not> b_backfill (demo_body False)" by (simp add: demo_body_def)
  from ingest_idempotent[OF inc X] X e show ?thesis by simp
qed


section \<open>Properties of the keyword search route\<close>

text \<open>
  Claim C7, as the code has it. Whatever the query, the days and the upstream, the
  response of the route has the fields \<open>query\<close>, \<open>byDay\<close>, \<open>rows\<close>, \<open>top\<close> and
  \<open>total\<close>, in this order, or the single field \<open>error\<close>; a field \<open>topChannels\<close> is
  never part of it.
\<close>

theorem metrics_by_query_fields:
  "(field_names (metrics_by_query collate publishedAfter_of cfg searchVideos videos_list q days)
       = [''query'', ''byDay'', ''rows'', ''top'', ''total'']
     \<or> field_names (metrics_by_query collate publishedAfter_of cfg searchVideos videos_list q days) = [''error''])
   \<and> ''topChannels'' \<notin> set (field_names (metrics_by_query collate publishedAfter_of cfg searchVideos videos_list q days))"
  by (simp add: metrics_by_query_def field_names_def Let_def split: sum.splits option.splits
        del: search_loop.simps fetch_loop.simps)

text \<open>
  The theorem at the keywords \<open>LG\<close> and \<open>air conditioner\<close>: of the two candidates the
  search returns, the one that mentions both is kept and hydrated.
\<close>

theorem metrics_by_query_fields_witness:
  "metrics_by_query code_units jan09 demo_query_config demo_search dated_found ''LG, air conditioner'' (2::int)
     = Reply [(''query'', JStr ''LG, air conditioner''), (''byDay'', JCounts [(''1970-01-10'', 1)]),
              (''rows'', JRows [to_row (dated_video ''v1'')]),
              (''top'', JRows [to_row (dated_video ''v1'')]), (''total'', JNum 1)]
   \<and> ''topChannels'' \<notin> set (field_names
        (metrics_by_query code_units jan09 demo_query_config demo_search dated_found ''LG, air conditioner'' (2::int)))"
proof -
  have "metrics_by_query code_units jan09 demo_query_config demo_search dated_found ''LG, air conditioner'' (2::int)
     = Reply [(''query'', JStr ''LG, air conditioner''), (''byDay'', JCounts [(''1970-01-10'', 1)]),
              (''rows'', JRows [to_row (dated_video ''v1'')]),
              (''top'', JRows [to_row (dated_video ''v1'')]), (''total'', JNum 1)]"
    by code_simp
  with metrics_by_query_fields[of code_units jan09 demo_query_config demo_search dated_found "''LG, air conditioner''" "2::int"]
  show ?thesis by blast
qed

text \<open>
  Claim C7 as stated has a \<open>topChannels\<close> field in the result. The successful response
  of the run above has exactly five fields, and \<open>topChannels\<close> is not one of them.
\<close>

theorem metrics_by_query_fields_counterexample:
  "field_names (metrics_by_query code_units jan09 demo_query_config demo_search dated_found ''LG, air conditioner'' (2::int))
     = [''query'', ''byDay'', ''rows'', ''top'', ''total'']
   \<and> ''topChannels'' \<notin> set [''query'', ''byDay'', ''rows'', ''top'', ''total'']"
  by code_simp

end
